theory Spec2Isabelle
  imports Complex_Main "HOL-Library.AList"
begin

section \<open>The ONNX to gwr-timetable converter\<close>

text \<open>
  A shallow embedding of \<^verbatim>\<open>gwr-timetable/scripts/onnx-to-gwr-timetable-yaml.py\<close>.
  Python's unbounded integers are \<open>int\<close>; loop counters that only count upwards from
  zero (\<^verbatim>\<open>enumerate\<close>, \<^verbatim>\<open>range\<close>) are \<open>nat\<close>. Python dictionaries, whose iteration
  order is the order of first insertion, are association lists with distinct keys,
  written through \<open>AList.update\<close> (an existing key keeps its place, a new key goes last).
  Every \<^verbatim>\<open>raise\<close> of the script, every failing dictionary lookup and every division by
  zero is a value \<open>Inl e\<close> of the result.
\<close>

subsection \<open>Errors\<close>

datatype error =
    NoMemoryMaps
  | NoMemoryRanges
  | NoDevices
  | NoProcessingElements
  | MissingName nat
  | OutputTensorNotFound string
  | UnknownShape string
  | KeyError string
  | IndexError
  | ZeroDivisionError
  | AttributeError
  | ValueError
  | TypeError
  | OverflowError

subsection \<open>The graph, as the converter reads it\<close>

text \<open>
  A dimension of a declared shape has a \<^verbatim>\<open>dim_value\<close>, a \<^verbatim>\<open>dim_param\<close>, or neither.
  A type has a tensor type or not; a tensor type has a shape or not and an element
  type or not (\<^verbatim>\<open>HasField\<close>).
\<close>

datatype dim = DimValue int | DimParam string | DimUnset

record tensor_type =
  tt_shape :: "dim list option"
  tt_elem_type :: "int option"

record value_info =
  vi_name :: string
  vi_type :: "tensor_type option"

record initializer =
  init_name :: string
  init_dims :: "int list"
  init_data_type :: int

record onnx_node =
  node_name :: string
  node_op_type :: string
  node_input :: "string list"
  node_output :: "string list"

record graph =
  g_value_info :: "value_info list"
  g_input :: "value_info list"
  g_output :: "value_info list"
  g_initializer :: "initializer list"
  g_node :: "onnx_node list"

text \<open>The element type codes of \<^verbatim>\<open>onnx.TensorProto\<close>.\<close>

definition FLOAT :: int where "FLOAT = 1"
definition UINT8 :: int where "UINT8 = 2"
definition INT8 :: int where "INT8 = 3"
definition UINT16 :: int where "UINT16 = 4"
definition INT16 :: int where "INT16 = 5"
definition INT32 :: int where "INT32 = 6"
definition INT64 :: int where "INT64 = 7"
definition BOOL :: int where "BOOL = 9"
definition FLOAT16 :: int where "FLOAT16 = 10"
definition DOUBLE :: int where "DOUBLE = 11"
definition UINT32 :: int where "UINT32 = 12"
definition UINT64 :: int where "UINT64 = 13"
definition COMPLEX64 :: int where "COMPLEX64 = 14"
definition COMPLEX128 :: int where "COMPLEX128 = 15"
definition BFLOAT16 :: int where "BFLOAT16 = 16"

definition DEFAULT_SRAM_BYTES :: int where
  "DEFAULT_SRAM_BYTES = 1024 * 1024"

definition DTYPE_SIZES :: "(int \<times> int) list" where
  "DTYPE_SIZES =
    [(FLOAT, 4), (UINT8, 1), (INT8, 1), (UINT16, 2), (INT16, 2), (INT32, 4), (INT64, 8),
     (BOOL, 1), (FLOAT16, 2), (DOUBLE, 8), (UINT32, 4), (UINT64, 8), (COMPLEX64, 8),
     (COMPLEX128, 16), (BFLOAT16, 2)]"

subsection \<open>Tensor sizes\<close>

type_synonym shape = "int option list"

text \<open>A tensor's entry in the table: \<^verbatim>\<open>(shape, dtype, size_bytes)\<close>.\<close>

type_synonym tensor_info = "shape option \<times> int \<times> int"

type_synonym tensor_table = "(string \<times> tensor_info) list"

fun get_tensor_num_elements :: "shape \<Rightarrow> int" where
  "get_tensor_num_elements [] = 1"
| "get_tensor_num_elements (d # ds) =
     (case d of
        None \<Rightarrow> 1 * get_tensor_num_elements ds
      | Some v \<Rightarrow> (if v \<le> 0 then 1 * get_tensor_num_elements ds
                  else v * get_tensor_num_elements ds))"

definition get_tensor_size_bytes :: "shape \<Rightarrow> int \<Rightarrow> int" where
  "get_tensor_size_bytes shp dtype =
     get_tensor_num_elements shp *
       (case map_of DTYPE_SIZES dtype of None \<Rightarrow> 4 | Some w \<Rightarrow> w)"

definition shape_from_type_proto :: "tensor_type option \<Rightarrow> shape option" where
  "shape_from_type_proto tp =
     (case tp of
        None \<Rightarrow> None
      | Some t \<Rightarrow>
          (case tt_shape t of
             None \<Rightarrow> None
           | Some ds \<Rightarrow>
               Some (map (\<lambda>d. case d of DimValue v \<Rightarrow> Some v
                                       | DimParam _ \<Rightarrow> None
                                       | DimUnset \<Rightarrow> None) ds)))"

definition dtype_from_type_proto :: "tensor_type option \<Rightarrow> int option" where
  "dtype_from_type_proto tp =
     (case tp of None \<Rightarrow> None | Some t \<Rightarrow> tt_elem_type t)"

subsection \<open>Decimal rendering of indices in identifiers\<close>

text \<open>Python's \<^verbatim>\<open>str\<close> of a non-negative integer, as the f-strings of the script use it.\<close>

definition digit_char :: "nat \<Rightarrow> char" where
  "digit_char d = ''0123456789'' ! d"

fun str_nat :: "nat \<Rightarrow> string" where
  "str_nat n = (if n < 10 then [digit_char n] else str_nat (n div 10) @ [digit_char (n mod 10)])"

declare str_nat.simps [simp del]

subsection \<open>Timetable nodes and edges\<close>

datatype config =
    MemoryConfig (cfg_addr: int) (cfg_num_bytes: int)
  | ComputeConfig (cfg_dtype: string) (cfg_num_ops: int)

record tt_node =
  n_id :: string
  n_kind :: string
  n_op :: string
  n_pe :: string
  n_config :: config

record tt_edge =
  e_from :: string
  e_to :: string
  e_kind :: string

subsection \<open>Splitting a transfer into chunks\<close>

text \<open>
  \<^verbatim>\<open>num_chunks = (total_size_bytes + sram_bytes - 1) // sram_bytes\<close> raises
  \<^verbatim>\<open>ZeroDivisionError\<close> when \<^verbatim>\<open>sram_bytes\<close> is zero; \<^verbatim>\<open>range(num_chunks)\<close> is empty
  when \<^verbatim>\<open>num_chunks\<close> is not positive. Floor division of Python and \<open>div\<close> on \<open>int\<close>
  agree for every sign of the operands.
\<close>

definition chunk_op ::
  "string \<Rightarrow> string \<Rightarrow> string \<Rightarrow> int \<Rightarrow> int \<Rightarrow> int \<Rightarrow> int \<Rightarrow> nat \<Rightarrow> tt_node" where
  "chunk_op base_id op_type pe_name base_addr total_size_bytes sram_bytes num_chunks chunk_index =
     (let offset = int chunk_index * sram_bytes;
          chunk_size_bytes = min sram_bytes (total_size_bytes - offset);
          chunk_id = (if num_chunks = 1 then base_id
                      else base_id @ ''_chunk_'' @ str_nat chunk_index)
      in \<lparr>n_id = chunk_id, n_kind = ''memory'', n_op = op_type, n_pe = pe_name,
          n_config = MemoryConfig (base_addr + offset) chunk_size_bytes\<rparr>)"

definition split_memory_op ::
  "string \<Rightarrow> string \<Rightarrow> string \<Rightarrow> int \<Rightarrow> int \<Rightarrow> int \<Rightarrow> error + tt_node list" where
  "split_memory_op base_id op_type pe_name base_addr total_size_bytes sram_bytes =
     (if sram_bytes = 0 then Inl ZeroDivisionError
      else
        (let num_chunks = (total_size_bytes + sram_bytes - 1) div sram_bytes
         in Inr (map (chunk_op base_id op_type pe_name base_addr total_size_bytes
                        sram_bytes num_chunks)
                   [0..<nat num_chunks])))"


subsection \<open>The tensor table\<close>

text \<open>
  \<^verbatim>\<open>{init.name: init for init in graph.initializer}\<close>: a later initializer of the same
  name replaces an earlier one.
\<close>

definition initializer_map :: "initializer list \<Rightarrow> (string \<rightharpoonup> initializer)" where
  "initializer_map inits = fold (\<lambda>i m. m(init_name i \<mapsto> i)) inits Map.empty"

text \<open>
  The body of the first loop of \<^verbatim>\<open>_collect_tensors\<close>, for one declared tensor. An
  initializer message always has the attributes \<^verbatim>\<open>dims\<close> and \<^verbatim>\<open>data_type\<close>, so both
  \<^verbatim>\<open>hasattr\<close> tests hold.
\<close>

definition declared_info :: "(string \<rightharpoonup> initializer) \<Rightarrow> value_info \<Rightarrow> tensor_info" where
  "declared_info imap vi =
     (let shape0 = shape_from_type_proto (vi_type vi);
          dtype0 = dtype_from_type_proto (vi_type vi);
          init = imap (vi_name vi);
          shape1 = (if shape0 = None \<and> init \<noteq> None
                    then Some (map Some (init_dims (the init))) else shape0);
          dtype1 = (if dtype0 = None \<and> init \<noteq> None
                    then Some (init_data_type (the init)) else dtype0);
          dtype = (case dtype1 of None \<Rightarrow> FLOAT | Some d \<Rightarrow> d);
          shp = (case shape1 of None \<Rightarrow> [Some 1] | Some s \<Rightarrow> s)
      in (Some shp, dtype, get_tensor_size_bytes shp dtype))"

text \<open>The body of the second loop, for one initializer.\<close>

definition initializer_info :: "initializer \<Rightarrow> tensor_info" where
  "initializer_info init =
     (let shp = map Some (init_dims init); dtype = init_data_type init
      in (Some shp, dtype, get_tensor_size_bytes shp dtype))"

text \<open>The body of the third loop, for one name of a node's inputs and outputs.\<close>

definition fallback_info :: tensor_info where
  "fallback_info = (Some [Some 1], FLOAT, get_tensor_size_bytes [Some 1] FLOAT)"

definition ensure_tensor :: "string \<Rightarrow> tensor_table \<Rightarrow> tensor_table" where
  "ensure_tensor tensor_name tensors =
     (if tensor_name = [] then tensors
      else if map_of tensors tensor_name = None
           then AList.update tensor_name fallback_info tensors
           else tensors)"

definition collect_tensors :: "graph \<Rightarrow> tensor_table" where
  "collect_tensors g =
     (let imap = initializer_map (g_initializer g);
          t1 = fold (\<lambda>vi tensors. AList.update (vi_name vi) (declared_info imap vi) tensors)
                 (g_value_info g @ g_input g @ g_output g) [];
          t2 = fold (\<lambda>init tensors. AList.update (init_name init) (initializer_info init) tensors)
                 (g_initializer g) t1
      in fold (\<lambda>nd tensors. fold ensure_tensor (node_input nd @ node_output nd) tensors)
           (g_node g) t2)"

subsection \<open>The platform configuration\<close>

text \<open>
  The platform is read from YAML. A range's \<^verbatim>\<open>base_address\<close> is modelled after its
  conversion to an integer; an absent key is \<open>None\<close>.
\<close>

record range_info =
  ri_device :: "string option"
  ri_base_address :: "int option"

record memory_map =
  mm_ranges :: "range_info list option"

text \<open>
  What the YAML gives for an element's \<^verbatim>\<open>config\<close> and for the \<^verbatim>\<open>sram_bytes\<close> in it. The key
  \<^verbatim>\<open>config\<close> is absent, or its value is a mapping, in which \<^verbatim>\<open>sram_bytes\<close> is absent or null
  (\<open>None\<close>) or has a value, or its value is something else (null, a scalar, a sequence),
  which has no \<^verbatim>\<open>get\<close>. A value of \<^verbatim>\<open>sram_bytes\<close> is an integer, a string, or of another type;
  of the last, the model keeps what Python's \<^verbatim>\<open>int(value)\<close> makes of it: the integer (of a
  boolean or a finite float), or the exception it raises (\<^verbatim>\<open>TypeError\<close> for a sequence or a
  mapping, \<^verbatim>\<open>ValueError\<close> for a NaN, \<^verbatim>\<open>OverflowError\<close> for an infinity).
\<close>

datatype int_failure = IntTypeError | IntValueError | IntOverflowError

fun int_failure_error :: "int_failure \<Rightarrow> error" where
  "int_failure_error IntTypeError = TypeError"
| "int_failure_error IntValueError = ValueError"
| "int_failure_error IntOverflowError = OverflowError"

datatype sram_value = SramInt int | SramStr string | SramOther "int_failure + int"

datatype pe_config = ConfigAbsent | ConfigNotMapping | ConfigMapping "sram_value option"

record processing_element =
  pe_name :: string
  pe_config :: pe_config

record platform_config =
  pc_memory_maps :: "memory_map list option"
  pc_processing_elements :: "processing_element list option"

subsection \<open>Laying tensors out over the devices\<close>

definition init_device_addresses :: "range_info list \<Rightarrow> (string \<times> int) list" where
  "init_device_addresses ranges =
     fold (\<lambda>range_info device_addresses.
             (let device = (case ri_device range_info of None \<Rightarrow> ''hbm0'' | Some d \<Rightarrow> d);
                  base = (case ri_base_address range_info of None \<Rightarrow> 0 | Some b \<Rightarrow> b)
              in if map_of device_addresses device = None
                 then AList.update device base device_addresses
                 else device_addresses))
       ranges []"

text \<open>
  \<^verbatim>\<open>sorted(tensors.items(), key=lambda x: x[1][2], reverse=True)\<close>: Python's sort is
  stable and stays stable under \<^verbatim>\<open>reverse=True\<close>, so items of equal size keep the
  table's order; \<open>sort_key\<close> on the negated size does the same.
\<close>

definition sorted_tensors :: "tensor_table \<Rightarrow> (string \<times> tensor_info) list" where
  "sorted_tensors tensors = sort_key (\<lambda>x. - snd (snd (snd x))) tensors"

definition aligned_size :: "int \<Rightarrow> int" where
  "aligned_size size_bytes = ((size_bytes + 63) div 64) * 64"

text \<open>
  One placement of the allocation loop: the tensor, the device chosen for it, the address
  it is given and its size.
\<close>

record placement =
  pl_tensor :: string
  pl_device :: string
  pl_addr :: int
  pl_size :: int

text \<open>
  The allocation loop. Its state is \<^verbatim>\<open>current_device_index\<close>, \<^verbatim>\<open>device_addresses\<close> and
  \<^verbatim>\<open>tensor_addresses\<close>. Beside \<^verbatim>\<open>tensor_addresses\<close>, which is all the script returns,
  the model returns the placements in the order the loop makes them; nothing reads them
  but the theorems about the allocator.
\<close>

fun layout_loop ::
  "string list \<Rightarrow> (string \<times> tensor_info) list \<Rightarrow> nat \<Rightarrow> (string \<times> int) list \<Rightarrow>
   (string \<times> int) list \<Rightarrow> error + ((string \<times> int) list \<times> placement list)" where
  "layout_loop device_list [] current_device_index device_addresses tensor_addresses =
     Inr (tensor_addresses, [])"
| "layout_loop device_list ((tensor_name, (shp, dtype, size_bytes)) # rest)
     current_device_index device_addresses tensor_addresses =
     (if length device_list \<le> current_device_index then Inl IndexError
      else
        (let device = device_list ! current_device_index;
             next_device_index = (current_device_index + 1) mod length device_list
         in case map_of device_addresses device of
              None \<Rightarrow> Inl (KeyError device)
            | Some addr \<Rightarrow>
                (case layout_loop device_list rest next_device_index
                        (AList.update device (addr + aligned_size size_bytes) device_addresses)
                        (AList.update tensor_name addr tensor_addresses) of
                   Inl e \<Rightarrow> Inl e
                 | Inr (final_addresses, placements) \<Rightarrow>
                     Inr (final_addresses,
                          \<lparr>pl_tensor = tensor_name, pl_device = device, pl_addr = addr,
                           pl_size = size_bytes\<rparr> # placements))))"

definition layout_placements ::
  "tensor_table \<Rightarrow> platform_config \<Rightarrow> error + ((string \<times> int) list \<times> placement list)" where
  "layout_placements tensors platform_config =
     (case pc_memory_maps platform_config of
        None \<Rightarrow> Inl NoMemoryMaps
      | Some [] \<Rightarrow> Inl NoMemoryMaps
      | Some (mm # _) \<Rightarrow>
          (case mm_ranges mm of
             None \<Rightarrow> Inl NoMemoryRanges
           | Some [] \<Rightarrow> Inl NoMemoryRanges
           | Some ranges \<Rightarrow>
               (let device_addresses = init_device_addresses ranges;
                    device_list = map fst device_addresses
                in if device_list = [] then Inl NoDevices
                   else layout_loop device_list (sorted_tensors tensors) 0 device_addresses [])))"

definition layout_tensors :: "tensor_table \<Rightarrow> platform_config \<Rightarrow> error + (string \<times> int) list" where
  "layout_tensors tensors platform_config =
     (case layout_placements tensors platform_config of
        Inl e \<Rightarrow> Inl e
      | Inr (tensor_addresses, placements) \<Rightarrow> Inr tensor_addresses)"

subsection \<open>Lookup tables of the builder\<close>

definition dtype_to_string :: "int \<Rightarrow> string" where
  "dtype_to_string dtype =
     (case map_of
        [(FLOAT, ''fp32''), (FLOAT16, ''fp16''), (BFLOAT16, ''bf16''), (DOUBLE, ''fp64''),
         (INT8, ''int8''), (INT16, ''int16''), (INT32, ''int32''), (INT64, ''int64''),
         (UINT8, ''uint8''), (UINT16, ''uint16''), (UINT32, ''uint32''), (UINT64, ''uint64''),
         (BOOL, ''bool'')] dtype of
        None \<Rightarrow> ''fp32''
      | Some s \<Rightarrow> s)"

definition op_map :: "(string \<times> string) list" where
  "op_map =
    [(''Add'', ''add''), (''Sub'', ''add''), (''Mul'', ''add''), (''Div'', ''add''),
     (''MatMul'', ''mul''), (''Conv'', ''mul''), (''Relu'', ''mul''), (''Sigmoid'', ''mul''),
     (''Tanh'', ''mul''), (''BatchNormalization'', ''mul''), (''MaxPool'', ''mul''),
     (''AveragePool'', ''mul''), (''Flatten'', ''mul''), (''Reshape'', ''mul''),
     (''Transpose'', ''mul''), (''Concat'', ''mul''), (''Softmax'', ''mul''), (''Gemm'', ''mul''),
     (''Cast'', ''mul''), (''Constant'', ''mul''), (''Gather'', ''mul''),
     (''GroupQueryAttention'', ''mul''), (''MatMulNBits'', ''mul''), (''QMoE'', ''mul''),
     (''ReduceSum'', ''mul''), (''Shape'', ''mul''), (''SimplifiedLayerNormalization'', ''mul''),
     (''SkipSimplifiedLayerNormalization'', ''mul'')]"

definition map_onnx_op_to_gwr_op :: "string \<Rightarrow> string" where
  "map_onnx_op_to_gwr_op op_type =
     (case map_of op_map op_type of None \<Rightarrow> ''add'' | Some s \<Rightarrow> s)"

definition calculate_num_ops :: "tensor_table \<Rightarrow> string \<Rightarrow> error + int" where
  "calculate_num_ops tensors output_name =
     (case map_of tensors output_name of
        None \<Rightarrow> Inl (OutputTensorNotFound output_name)
      | Some (shp, dtype, size_bytes) \<Rightarrow>
          (case shp of
             None \<Rightarrow> Inl (UnknownShape output_name)
           | Some s \<Rightarrow> Inr (max 1 (get_tensor_num_elements s))))"

text \<open>
  \<^verbatim>\<open>_get_pe_sram_bytes\<close>: the first element of that name with a capacity decides; an
  element of that name without one does not stop the search. \<^verbatim>\<open>config.get\<close> raises
  \<^verbatim>\<open>AttributeError\<close> when \<^verbatim>\<open>config\<close> is not a mapping. A string is converted by
  \<^verbatim>\<open>int(sram_bytes.replace("_", ""), 0)\<close>, which raises \<^verbatim>\<open>ValueError\<close> on a string that is
  no integer literal; \<open>py_int\<close> stands for Python's \<^verbatim>\<open>int(s, 0)\<close>, \<open>None\<close> where it raises.
\<close>

definition remove_underscores :: "string \<Rightarrow> string" where
  "remove_underscores s = filter (\<lambda>c. c \<noteq> CHR ''_'') s"

fun get_pe_sram_bytes ::
  "(string \<Rightarrow> int option) \<Rightarrow> processing_element list \<Rightarrow> string \<Rightarrow> error + int" where
  "get_pe_sram_bytes py_int [] name = Inr DEFAULT_SRAM_BYTES"
| "get_pe_sram_bytes py_int (pe # pes) name =
     (if pe_name pe = name
      then (case pe_config pe of
              ConfigNotMapping \<Rightarrow> Inl AttributeError
            | ConfigAbsent \<Rightarrow> get_pe_sram_bytes py_int pes name
            | ConfigMapping None \<Rightarrow> get_pe_sram_bytes py_int pes name
            | ConfigMapping (Some (SramInt sram_bytes)) \<Rightarrow> Inr sram_bytes
            | ConfigMapping (Some (SramStr sram_bytes)) \<Rightarrow>
                (case py_int (remove_underscores sram_bytes) of
                   None \<Rightarrow> Inl ValueError
                 | Some n \<Rightarrow> Inr n)
            | ConfigMapping (Some (SramOther converted)) \<Rightarrow>
                (case converted of
                   Inl failure \<Rightarrow> Inl (int_failure_error failure)
                 | Inr n \<Rightarrow> Inr n))
      else get_pe_sram_bytes py_int pes name)"

subsection \<open>Lowering one operation\<close>

text \<open>
  The load loop and the store loop of the script are the same loop, over the inputs with
  \<^verbatim>\<open>"load"\<close> and over the outputs with \<^verbatim>\<open>"store"\<close>: the base identifier is
  \<^verbatim>\<open>f"{node_name}_load_{input_index}"\<close>, resp. \<^verbatim>\<open>f"{node_name}_store_{output_index}"\<close>.
  The index is the position given by \<^verbatim>\<open>enumerate\<close>; it advances over an empty name too.
  \<^verbatim>\<open>tensor_addresses[name]\<close> and \<^verbatim>\<open>tensors[name]\<close> raise \<^verbatim>\<open>KeyError\<close> on a missing name.
\<close>

fun emit_memory_ops ::
  "string \<Rightarrow> string \<Rightarrow> string \<Rightarrow> int \<Rightarrow> tensor_table \<Rightarrow> (string \<times> int) list \<Rightarrow>
   nat \<Rightarrow> string list \<Rightarrow> error + tt_node list list" where
  "emit_memory_ops node_nm op_type pe_nm sram_bytes tensors tensor_addresses index [] = Inr []"
| "emit_memory_ops node_nm op_type pe_nm sram_bytes tensors tensor_addresses index
     (tensor_name # rest) =
     (if tensor_name = []
      then emit_memory_ops node_nm op_type pe_nm sram_bytes tensors tensor_addresses
             (index + 1) rest
      else
        (let base_id = node_nm @ ''_'' @ op_type @ ''_'' @ str_nat index
         in case map_of tensor_addresses tensor_name of
              None \<Rightarrow> Inl (KeyError tensor_name)
            | Some addr \<Rightarrow>
                (case map_of tensors tensor_name of
                   None \<Rightarrow> Inl (KeyError tensor_name)
                 | Some (shp, dtype, size_bytes) \<Rightarrow>
                     (case split_memory_op base_id op_type pe_nm addr size_bytes sram_bytes of
                        Inl e \<Rightarrow> Inl e
                      | Inr ops \<Rightarrow>
                          (case emit_memory_ops node_nm op_type pe_nm sram_bytes tensors
                                  tensor_addresses (index + 1) rest of
                             Inl e \<Rightarrow> Inl e
                           | Inr others \<Rightarrow> Inr (ops # others))))))"

text \<open>
  The loop over the outputs that computes \<^verbatim>\<open>max_num_ops\<close> and \<^verbatim>\<open>dtype_str\<close>.
\<close>

fun compute_loop :: "tensor_table \<Rightarrow> string list \<Rightarrow> int \<Rightarrow> string \<Rightarrow> error + (int \<times> string)" where
  "compute_loop tensors [] max_num_ops dtype_str = Inr (max_num_ops, dtype_str)"
| "compute_loop tensors (output_name # rest) max_num_ops dtype_str =
     (if output_name = [] then compute_loop tensors rest max_num_ops dtype_str
      else
        (case calculate_num_ops tensors output_name of
           Inl e \<Rightarrow> Inl e
         | Inr num_ops \<Rightarrow>
             compute_loop tensors rest (max max_num_ops num_ops)
               (case map_of tensors output_name of
                  Some (shp, dtype, size_bytes) \<Rightarrow> dtype_to_string dtype
                | None \<Rightarrow> dtype_str)))"

definition data_edge :: "string \<Rightarrow> string \<Rightarrow> tt_edge" where
  "data_edge src dst = \<lparr>e_from = src, e_to = dst, e_kind = ''data''\<rparr>"

text \<open>
  What one iteration of the walk adds for an operation, after its name has been checked
  and its processing element chosen: the load records, the compute record, the store
  records, and the edges. The model keeps the three groups of records apart; the script
  appends them to \<^verbatim>\<open>nodes\<close> in this order.
\<close>

record lowered =
  lw_loads :: "tt_node list list"
  lw_compute :: tt_node
  lw_stores :: "tt_node list list"
  lw_edges :: "tt_edge list"

definition lowered_nodes :: "lowered \<Rightarrow> tt_node list" where
  "lowered_nodes lw = concat (lw_loads lw) @ [lw_compute lw] @ concat (lw_stores lw)"

definition lower_node ::
  "(string \<Rightarrow> int option) \<Rightarrow> tensor_table \<Rightarrow> (string \<times> int) list \<Rightarrow> processing_element list \<Rightarrow>
   string \<Rightarrow> onnx_node \<Rightarrow> error + lowered" where
  "lower_node py_int tensors tensor_addresses pes pe_nm onnx_nd =
     (let node_nm = node_name onnx_nd
      in case get_pe_sram_bytes py_int pes pe_nm of
           Inl e \<Rightarrow> Inl e
         | Inr sram_bytes \<Rightarrow>
      (case emit_memory_ops node_nm ''load'' pe_nm sram_bytes tensors tensor_addresses 0
                (node_input onnx_nd) of
           Inl e \<Rightarrow> Inl e
         | Inr load_ops \<Rightarrow>
             (let load_node_ids = map n_id (concat load_ops);
                  compute_id = node_nm @ ''_compute'';
                  gwr_op = map_onnx_op_to_gwr_op (node_op_type onnx_nd)
              in case compute_loop tensors (node_output onnx_nd) 1 ''fp32'' of
                   Inl e \<Rightarrow> Inl e
                 | Inr (max_num_ops, dtype_str) \<Rightarrow>
                     (case emit_memory_ops node_nm ''store'' pe_nm sram_bytes tensors
                             tensor_addresses 0 (node_output onnx_nd) of
                        Inl e \<Rightarrow> Inl e
                      | Inr store_ops \<Rightarrow>
                          Inr \<lparr>lw_loads = load_ops,
                               lw_compute =
                                 \<lparr>n_id = compute_id, n_kind = ''compute'', n_op = gwr_op,
                                  n_pe = pe_nm,
                                  n_config = ComputeConfig dtype_str max_num_ops\<rparr>,
                               lw_stores = store_ops,
                               lw_edges =
                                 map (\<lambda>load_id. data_edge load_id compute_id) load_node_ids @
                                 map (\<lambda>store_op. data_edge compute_id (n_id store_op))
                                   (concat store_ops)\<rparr>))))"

subsection \<open>The walk over the operations\<close>

text \<open>
  The loop of \<^verbatim>\<open>onnx_to_gwr_timetable\<close> over \<^verbatim>\<open>enumerate(graph.node)\<close>, with the
  round-robin cursor \<^verbatim>\<open>current_pe_index\<close>. It yields what each operation adds, in the
  order of the operations; the first error ends it.
\<close>

fun walk ::
  "(string \<Rightarrow> int option) \<Rightarrow> tensor_table \<Rightarrow> (string \<times> int) list \<Rightarrow> processing_element list \<Rightarrow>
   string list \<Rightarrow> nat \<Rightarrow> nat \<Rightarrow> onnx_node list \<Rightarrow> error + lowered list" where
  "walk py_int tensors tensor_addresses pes pe_names onnx_node_index current_pe_index [] = Inr []"
| "walk py_int tensors tensor_addresses pes pe_names onnx_node_index current_pe_index
     (onnx_nd # rest) =
     (if node_name onnx_nd = [] then Inl (MissingName onnx_node_index)
      else if length pe_names \<le> current_pe_index then Inl IndexError
      else
        (case lower_node py_int tensors tensor_addresses pes (pe_names ! current_pe_index)
                onnx_nd of
           Inl e \<Rightarrow> Inl e
         | Inr lw \<Rightarrow>
             (case walk py_int tensors tensor_addresses pes pe_names (onnx_node_index + 1)
                     ((current_pe_index + 1) mod length pe_names) rest of
                Inl e \<Rightarrow> Inl e
              | Inr lws \<Rightarrow> Inr (lw # lws))))"

record timetable =
  tt_nodes :: "tt_node list"
  tt_edges :: "tt_edge list"

definition flatten_timetable :: "lowered list \<Rightarrow> timetable" where
  "flatten_timetable lws =
     \<lparr>tt_nodes = concat (map lowered_nodes lws), tt_edges = concat (map lw_edges lws)\<rparr>"

text \<open>
  The conversion up to the end of the walk, with the operations' contributions still
  apart, and the conversion itself, which returns their concatenation.
\<close>

definition lower_graph ::
  "(string \<Rightarrow> int option) \<Rightarrow> graph \<Rightarrow> platform_config \<Rightarrow> error + lowered list" where
  "lower_graph py_int g platform_config =
     (let tensors = collect_tensors g
      in case layout_tensors tensors platform_config of
           Inl e \<Rightarrow> Inl e
         | Inr tensor_addresses \<Rightarrow>
             (let pes = (case pc_processing_elements platform_config of
                           None \<Rightarrow> [] | Some ps \<Rightarrow> ps)
              in if pes = [] then Inl NoProcessingElements
                 else walk py_int tensors tensor_addresses pes (map pe_name pes) 0 0 (g_node g)))"

definition onnx_to_gwr_timetable ::
  "(string \<Rightarrow> int option) \<Rightarrow> graph \<Rightarrow> platform_config \<Rightarrow> error + timetable" where
  "onnx_to_gwr_timetable py_int g platform_config =
     (case lower_graph py_int g platform_config of
        Inl e \<Rightarrow> Inl e
      | Inr lws \<Rightarrow> Inr (flatten_timetable lws))"

subsection \<open>Vocabulary of the properties\<close>

text \<open>
  The names a graph refers to: those of the declared lists (value-info, graph inputs,
  graph outputs), of the initializers, and of every node's inputs and outputs.
\<close>

definition referenced_names :: "graph \<Rightarrow> string set" where
  "referenced_names g =
     vi_name ` set (g_value_info g @ g_input g @ g_output g)
     \<union> init_name ` set (g_initializer g)
     \<union> (\<Union> ((\<lambda>nd. set (node_input nd) \<union> set (node_output nd)) ` set (g_node g)))"

text \<open>A record of the tensor table is resolved: it has a shape and at least one byte.\<close>

definition resolved_info :: "tensor_info \<Rightarrow> bool" where
  "resolved_info info = (fst info \<noteq> None \<and> 1 \<le> snd (snd info))"

text \<open>The invariant of the tensor table: one record per name, each resolved.\<close>

definition table_inv :: "tensor_table \<Rightarrow> bool" where
  "table_inv t = (distinct (map fst t) \<and> (\<forall>x \<in> set t. resolved_info (snd x)))"

text \<open>
  Every non-empty name of a list has an address and a record with a shape: what the
  lookups of the builder need.
\<close>

definition names_resolved :: "tensor_table \<Rightarrow> (string \<times> int) list \<Rightarrow> string list \<Rightarrow> bool" where
  "names_resolved tensors tensor_addresses names =
     (\<forall>n \<in> set names. n \<noteq> [] \<longrightarrow>
        map_of tensor_addresses n \<noteq> None \<and>
        (\<exists>s d z. map_of tensors n = Some (Some s, d, z)))"

text \<open>The device and the base address of a range, with the defaults of the script.\<close>

definition range_device :: "range_info \<Rightarrow> string" where
  "range_device r = (case ri_device r of None \<Rightarrow> ''hbm0'' | Some d \<Rightarrow> d)"

definition range_base :: "range_info \<Rightarrow> int" where
  "range_base r = (case ri_base_address r of None \<Rightarrow> 0 | Some b \<Rightarrow> b)"

text \<open>
  The element count and the element type the table records for a name, and the
  non-empty names of a list.
\<close>

definition element_count :: "tensor_table \<Rightarrow> string \<Rightarrow> int" where
  "element_count tensors n =
     (case map_of tensors n of
        Some (Some s, d, z) \<Rightarrow> get_tensor_num_elements s
      | _ \<Rightarrow> 0)"

definition resolved_dtype :: "tensor_table \<Rightarrow> string \<Rightarrow> int" where
  "resolved_dtype tensors n =
     (case map_of tensors n of Some (s, d, z) \<Rightarrow> d | None \<Rightarrow> FLOAT)"

definition non_empty :: "string list \<Rightarrow> string list" where
  "non_empty names = filter (\<lambda>n. n \<noteq> []) names"

text \<open>
  The records made for the tensor in one slot of an operation's input or output list:
  a slot is a position with the name at that position, and its records are the chunks of
  a transfer whose base identifier carries the position.
\<close>

definition slot_id :: "string \<Rightarrow> string \<Rightarrow> nat \<Rightarrow> string" where
  "slot_id node_nm op_type position = node_nm @ ''_'' @ op_type @ ''_'' @ str_nat position"

definition slot_group :: "string \<Rightarrow> string \<Rightarrow> nat \<times> string \<Rightarrow> tt_node list \<Rightarrow> bool" where
  "slot_group node_nm op_type slot ops =
     (\<exists>pe addr size_bytes sram_bytes.
        split_memory_op (slot_id node_nm op_type (fst slot)) op_type pe addr size_bytes sram_bytes
          = Inr ops)"

definition used_slots :: "string list \<Rightarrow> (nat \<times> string) list" where
  "used_slots names = filter (\<lambda>slot. snd slot \<noteq> []) (enumerate 0 names)"

text \<open>
  The placements on one device, in the order they are made, and what it means that each
  of them starts where the previous one, rounded up to the alignment, ends.
\<close>

definition on_device :: "string \<Rightarrow> placement list \<Rightarrow> placement list" where
  "on_device d pls = filter (\<lambda>p. pl_device p = d) pls"

fun chained :: "int \<Rightarrow> placement list \<Rightarrow> bool" where
  "chained c [] = True"
| "chained c (p # ps) = (pl_addr p = c \<and> chained (c + aligned_size (pl_size p)) ps)"

definition tensor_size :: "string \<times> tensor_info \<Rightarrow> int" where
  "tensor_size x = snd (snd (snd x))"

text \<open>
  Reading an identifier back. The suffix the builder appends to an operation's name is
  \<open>_compute\<close>, \<open>_load_<i>\<close>, \<open>_store_<i>\<close>, or one of the last two followed by
  \<open>_chunk_<c>\<close>; its length can be read off the end of the identifier, whatever the name
  is, and what is left in front of it is the name.
\<close>

definition is_digit :: "char \<Rightarrow> bool" where
  "is_digit c = (c \<in> set ''0123456789'')"

definition digit_value :: "char \<Rightarrow> nat" where
  "digit_value c = length (takeWhile (\<lambda>d. d \<noteq> c) ''0123456789'')"

definition nat_of_digits :: "string \<Rightarrow> nat" where
  "nat_of_digits s = foldl (\<lambda>acc c. 10 * acc + digit_value c) 0 s"

definition memory_tag_length :: "string \<Rightarrow> nat" where
  "memory_tag_length r =
     (if take 6 r = rev ''_load_'' then 6 else if take 7 r = rev ''_store_'' then 7 else 0)"

definition id_suffix_length :: "string \<Rightarrow> nat" where
  "id_suffix_length ident =
     (let r = rev ident
      in if take 8 r = rev ''_compute'' then 8
         else
           (let d1 = length (takeWhile is_digit r); r1 = dropWhile is_digit r
            in if take 7 r1 = rev ''_chunk_''
               then (let r2 = drop 7 r1;
                         d2 = length (takeWhile is_digit r2);
                         r3 = dropWhile is_digit r2
                     in d1 + 7 + d2 + memory_tag_length r3)
               else d1 + memory_tag_length r1))"

definition id_owner :: "string \<Rightarrow> string" where
  "id_owner ident = take (length ident - id_suffix_length ident) ident"

definition chunk_suffixes :: "nat \<Rightarrow> string list" where
  "chunk_suffixes n =
     (if n = 1 then [[]] else map (\<lambda>c. ''_chunk_'' @ str_nat c) [0..<n])"



text \<open>
  The type strings by the numeric codes of the ONNX element types: 1 FLOAT, 2 UINT8,
  3 INT8, 4 UINT16, 5 INT16, 6 INT32, 7 INT64, 9 BOOL, 10 FLOAT16, 11 DOUBLE, 12 UINT32,
  13 UINT64, 16 BFLOAT16; every other code reads as \<open>fp32\<close>.
\<close>

definition dtype_name :: "int \<Rightarrow> string" where
  "dtype_name code =
     (if code = 1 then ''fp32'' else if code = 2 then ''uint8'' else if code = 3 then ''int8''
      else if code = 4 then ''uint16'' else if code = 5 then ''int16''
      else if code = 6 then ''int32'' else if code = 7 then ''int64''
      else if code = 9 then ''bool'' else if code = 10 then ''fp16''
      else if code = 11 then ''fp64'' else if code = 12 then ''uint32''
      else if code = 13 then ''uint64'' else if code = 16 then ''bf16'' else ''fp32'')"

text \<open>The identifiers of the records an operation contributes.\<close>

definition node_ids :: "lowered \<Rightarrow> string set" where
  "node_ids lw = n_id ` set (lowered_nodes lw)"

subsection \<open>Example inputs\<close>

text \<open>
  One operation \<^verbatim>\<open>add0\<close> whose first input slot is unused, reading \<^verbatim>\<open>x\<close> and writing
  \<^verbatim>\<open>y\<close>, both of shape \<^verbatim>\<open>[4]\<close> and type FLOAT (16 bytes); a platform with one device at
  \<^verbatim>\<open>0x1000\<close> and one processing element of 8 bytes of local memory.
\<close>

definition fp32_vec4 :: "tensor_type option" where
  "fp32_vec4 = Some \<lparr>tt_shape = Some [DimValue 4], tt_elem_type = Some 1\<rparr>"

definition ex_graph :: graph where
  "ex_graph =
     \<lparr>g_value_info = [],
      g_input = [\<lparr>vi_name = ''x'', vi_type = fp32_vec4\<rparr>],
      g_output = [\<lparr>vi_name = ''y'', vi_type = fp32_vec4\<rparr>],
      g_initializer = [],
      g_node = [\<lparr>node_name = ''add0'', node_op_type = ''Add'',
                 node_input = ['''', ''x''], node_output = [''y'']\<rparr>]\<rparr>"

definition ex_platform :: platform_config where
  "ex_platform =
     \<lparr>pc_memory_maps =
        Some [\<lparr>mm_ranges = Some [\<lparr>ri_device = Some ''hbm0'', ri_base_address = Some 4096\<rparr>]\<rparr>],
      pc_processing_elements = Some [\<lparr>pe_name = ''pe0'', pe_config = ConfigMapping (Some (SramInt 8))\<rparr>]\<rparr>"

text \<open>
  The same graph followed by an operation without a name, and the same platform with an
  element whose \<^verbatim>\<open>sram_bytes\<close> is zero.
\<close>

definition unnamed_graph :: graph where
  "unnamed_graph =
     ex_graph\<lparr>g_node := g_node ex_graph @
        [\<lparr>node_name = '''', node_op_type = ''Relu'',
          node_input = [''y''], node_output = [''z'']\<rparr>]\<rparr>"

definition zero_sram_platform :: platform_config where
  "zero_sram_platform =
     ex_platform\<lparr>pc_processing_elements := Some [\<lparr>pe_name = ''pe0'', pe_config = ConfigMapping (Some (SramInt 0))\<rparr>]\<rparr>"

text \<open>What the converter makes of \<open>ex_graph\<close> on \<open>ex_platform\<close>.\<close>

definition ex_lowered :: "lowered list" where
  "ex_lowered =
     [\<lparr>lw_loads =
         [[\<lparr>n_id = ''add0_load_1_chunk_0'', n_kind = ''memory'', n_op = ''load'',
            n_pe = ''pe0'', n_config = MemoryConfig 4096 8\<rparr>,
           \<lparr>n_id = ''add0_load_1_chunk_1'', n_kind = ''memory'', n_op = ''load'',
            n_pe = ''pe0'', n_config = MemoryConfig 4104 8\<rparr>]],
       lw_compute =
         \<lparr>n_id = ''add0_compute'', n_kind = ''compute'', n_op = ''add'', n_pe = ''pe0'',
          n_config = ComputeConfig ''fp32'' 4\<rparr>,
       lw_stores =
         [[\<lparr>n_id = ''add0_store_0_chunk_0'', n_kind = ''memory'', n_op = ''store'',
            n_pe = ''pe0'', n_config = MemoryConfig 4160 8\<rparr>,
           \<lparr>n_id = ''add0_store_0_chunk_1'', n_kind = ''memory'', n_op = ''store'',
            n_pe = ''pe0'', n_config = MemoryConfig 4168 8\<rparr>]],
       lw_edges =
         [data_edge ''add0_load_1_chunk_0'' ''add0_compute'',
          data_edge ''add0_load_1_chunk_1'' ''add0_compute'',
          data_edge ''add0_compute'' ''add0_store_0_chunk_0'',
          data_edge ''add0_compute'' ''add0_store_0_chunk_1'']\<rparr>]"

text \<open>Three operations without tensors, and a platform with two processing elements.\<close>

definition rr_graph :: graph where
  "rr_graph =
     \<lparr>g_value_info = [], g_input = [], g_output = [], g_initializer = [],
      g_node = [\<lparr>node_name = ''a'', node_op_type = ''Add'', node_input = [], node_output = []\<rparr>,
                \<lparr>node_name = ''b'', node_op_type = ''Relu'', node_input = [], node_output = []\<rparr>,
                \<lparr>node_name = ''c'', node_op_type = ''Foo'', node_input = [], node_output = []\<rparr>]\<rparr>"

definition rr_pes :: "processing_element list" where
  "rr_pes = [\<lparr>pe_name = ''pe0'', pe_config = ConfigAbsent\<rparr>,
             \<lparr>pe_name = ''pe1'', pe_config = ConfigMapping (Some (SramStr ''2_048''))\<rparr>]"

definition rr_platform :: platform_config where
  "rr_platform = ex_platform\<lparr>pc_processing_elements := Some rr_pes\<rparr>"

definition compute_only :: "string \<Rightarrow> string \<Rightarrow> string \<Rightarrow> lowered" where
  "compute_only nm category pe =
     \<lparr>lw_loads = [],
      lw_compute = \<lparr>n_id = nm @ ''_compute'', n_kind = ''compute'', n_op = category, n_pe = pe,
                     n_config = ComputeConfig ''fp32'' 1\<rparr>,
      lw_stores = [], lw_edges = []\<rparr>"

definition rr_lowered :: "lowered list" where
  "rr_lowered =
     [compute_only ''a'' ''add'' ''pe0'', compute_only ''b'' ''mul'' ''pe1'',
      compute_only ''c'' ''add'' ''pe0'']"

text \<open>The first platform with the default capacity of 1 MiB for its element.\<close>

definition default_sram_platform :: platform_config where
  "default_sram_platform =
     ex_platform\<lparr>pc_processing_elements := Some [\<lparr>pe_name = ''pe0'', pe_config = ConfigAbsent\<rparr>]\<rparr>"

text \<open>
  A tensor \<^verbatim>\<open>w\<close> that is declared with shape \<^verbatim>\<open>[2, 3]\<close> and type FLOAT and is also an
  initializer, with dimensions \<^verbatim>\<open>[4]\<close> and type INT64.
\<close>

definition shadow_graph :: graph where
  "shadow_graph =
     \<lparr>g_value_info =
        [\<lparr>vi_name = ''w'',
          vi_type = Some \<lparr>tt_shape = Some [DimValue 2, DimValue 3], tt_elem_type = Some FLOAT\<rparr>\<rparr>],
      g_input = [], g_output = [],
      g_initializer = [\<lparr>init_name = ''w'', init_dims = [4], init_data_type = INT64\<rparr>],
      g_node = []\<rparr>"

text \<open>
  Four tensors of 16, 100, 100 and 1 bytes, and a platform with two devices, the first of
  which is named by two ranges.
\<close>

definition four_tensors :: tensor_table where
  "four_tensors =
     [(''a'', Some [Some 4], FLOAT, 16), (''b'', Some [Some 100], INT8, 100),
      (''c'', Some [Some 100], UINT8, 100), (''d'', Some [Some 1], BOOL, 1)]"

definition two_device_platform :: platform_config where
  "two_device_platform =
     \<lparr>pc_memory_maps =
        Some [\<lparr>mm_ranges =
                Some [\<lparr>ri_device = Some ''hbm0'', ri_base_address = Some 0\<rparr>,
                      \<lparr>ri_device = Some ''hbm1'', ri_base_address = Some 1048576\<rparr>,
                      \<lparr>ri_device = Some ''hbm0'', ri_base_address = Some 4096\<rparr>]\<rparr>],
      pc_processing_elements = Some [\<lparr>pe_name = ''pe0'', pe_config = ConfigAbsent\<rparr>]\<rparr>"

text \<open>Two operations of the same name, and what the converter makes of them.\<close>

definition dup_graph :: graph where
  "dup_graph =
     \<lparr>g_value_info = [], g_input = [], g_output = [], g_initializer = [],
      g_node = [\<lparr>node_name = ''a'', node_op_type = ''Add'', node_input = [], node_output = []\<rparr>,
                \<lparr>node_name = ''a'', node_op_type = ''Relu'', node_input = [], node_output = []\<rparr>]\<rparr>"

definition dup_timetable :: timetable where
  "dup_timetable =
     \<lparr>tt_nodes =
        [\<lparr>n_id = ''a_compute'', n_kind = ''compute'', n_op = ''add'', n_pe = ''pe0'',
          n_config = ComputeConfig ''fp32'' 1\<rparr>,
         \<lparr>n_id = ''a_compute'', n_kind = ''compute'', n_op = ''mul'', n_pe = ''pe0'',
          n_config = ComputeConfig ''fp32'' 1\<rparr>],
      tt_edges = []\<rparr>"

text \<open>
  A conversion of strings for the examples. On an unsigned decimal literal (digits only,
  and no leading zero unless all digits are zero) it gives the integer that Python's
  \<^verbatim>\<open>int(s, 0)\<close> gives; it refuses every other string.
\<close>

definition decimal_int :: "string \<Rightarrow> int option" where
  "decimal_int s =
     (if s \<noteq> [] \<and> list_all is_digit s \<and> (hd s \<noteq> CHR ''0'' \<or> list_all (\<lambda>c. c = CHR ''0'') s)
      then Some (int (nat_of_digits s)) else None)"

text \<open>
  One operation \<^verbatim>\<open>mm0\<close> of kind MatMul that reads \<^verbatim>\<open>a\<close> and has four output slots, two
  of them unused: \<^verbatim>\<open>p\<close> of shape \<^verbatim>\<open>[2, 3]\<close> and type FLOAT, then \<^verbatim>\<open>q\<close> of shape \<^verbatim>\<open>[5]\<close> and
  type INT64.
\<close>

definition mm_graph :: graph where
  "mm_graph =
     \<lparr>g_value_info =
        [\<lparr>vi_name = ''p'',
          vi_type = Some \<lparr>tt_shape = Some [DimValue 2, DimValue 3], tt_elem_type = Some FLOAT\<rparr>\<rparr>,
         \<lparr>vi_name = ''q'',
          vi_type = Some \<lparr>tt_shape = Some [DimValue 5], tt_elem_type = Some INT64\<rparr>\<rparr>],
      g_input = [\<lparr>vi_name = ''a'', vi_type = fp32_vec4\<rparr>],
      g_output = [],
      g_initializer = [],
      g_node = [\<lparr>node_name = ''mm0'', node_op_type = ''MatMul'',
                 node_input = [''a''], node_output = [''p'', '''', ''q'', '''']\<rparr>]\<rparr>"

text \<open>
  Two operations of the same name \<^verbatim>\<open>a\<close>, the first reading \<^verbatim>\<open>x\<close> and the second writing
  \<^verbatim>\<open>y\<close>.
\<close>

definition dup_io_graph :: graph where
  "dup_io_graph =
     \<lparr>g_value_info = [],
      g_input = [\<lparr>vi_name = ''x'', vi_type = fp32_vec4\<rparr>],
      g_output = [\<lparr>vi_name = ''y'', vi_type = fp32_vec4\<rparr>],
      g_initializer = [],
      g_node = [\<lparr>node_name = ''a'', node_op_type = ''Add'', node_input = [''x''], node_output = []\<rparr>,
                \<lparr>node_name = ''a'', node_op_type = ''Relu'', node_input = [], node_output = [''y'']\<rparr>]\<rparr>"

text \<open>
  What the converter makes of \<open>mm_graph\<close> and of \<open>dup_io_graph\<close> on the platform with the
  default capacity.
\<close>

definition mm_lowered :: "lowered list" where
  "mm_lowered =
     [\<lparr>lw_loads =
         [[\<lparr>n_id = ''mm0_load_0'', n_kind = ''memory'', n_op = ''load'', n_pe = ''pe0'',
            n_config = MemoryConfig 4224 16\<rparr>]],
       lw_compute =
         \<lparr>n_id = ''mm0_compute'', n_kind = ''compute'', n_op = ''mul'', n_pe = ''pe0'',
          n_config = ComputeConfig ''int64'' 6\<rparr>,
       lw_stores =
         [[\<lparr>n_id = ''mm0_store_0'', n_kind = ''memory'', n_op = ''store'', n_pe = ''pe0'',
            n_config = MemoryConfig 4160 24\<rparr>],
          [\<lparr>n_id = ''mm0_store_2'', n_kind = ''memory'', n_op = ''store'', n_pe = ''pe0'',
            n_config = MemoryConfig 4096 40\<rparr>]],
       lw_edges =
         [data_edge ''mm0_load_0'' ''mm0_compute'',
          data_edge ''mm0_compute'' ''mm0_store_0'',
          data_edge ''mm0_compute'' ''mm0_store_2'']\<rparr>]"

definition dup_io_lowered :: "lowered list" where
  "dup_io_lowered =
     [\<lparr>lw_loads =
         [[\<lparr>n_id = ''a_load_0'', n_kind = ''memory'', n_op = ''load'', n_pe = ''pe0'',
            n_config = MemoryConfig 4096 16\<rparr>]],
       lw_compute =
         \<lparr>n_id = ''a_compute'', n_kind = ''compute'', n_op = ''add'', n_pe = ''pe0'',
          n_config = ComputeConfig ''fp32'' 1\<rparr>,
       lw_stores = [],
       lw_edges = [data_edge ''a_load_0'' ''a_compute'']\<rparr>,
      \<lparr>lw_loads = [],
       lw_compute =
         \<lparr>n_id = ''a_compute'', n_kind = ''compute'', n_op = ''mul'', n_pe = ''pe0'',
          n_config = ComputeConfig ''fp32'' 4\<rparr>,
       lw_stores =
         [[\<lparr>n_id = ''a_store_0'', n_kind = ''memory'', n_op = ''store'', n_pe = ''pe0'',
            n_config = MemoryConfig 4160 16\<rparr>]],
       lw_edges = [data_edge ''a_compute'' ''a_store_0'']\<rparr>]"

text \<open>
  The same two operations under the distinct names \<^verbatim>\<open>a\<close> and \<^verbatim>\<open>b\<close>, and what the
  converter makes of them on the platform whose element has 8 bytes of local memory.
\<close>

definition pair_graph :: graph where
  "pair_graph =
     dup_io_graph\<lparr>g_node :=
        [\<lparr>node_name = ''a'', node_op_type = ''Add'', node_input = [''x''], node_output = []\<rparr>,
         \<lparr>node_name = ''b'', node_op_type = ''Relu'', node_input = [], node_output = [''y'']\<rparr>]\<rparr>"

definition pair_lowered :: "lowered list" where
  "pair_lowered =
     [\<lparr>lw_loads =
         [[\<lparr>n_id = ''a_load_0_chunk_0'', n_kind = ''memory'', n_op = ''load'', n_pe = ''pe0'',
            n_config = MemoryConfig 4096 8\<rparr>,
           \<lparr>n_id = ''a_load_0_chunk_1'', n_kind = ''memory'', n_op = ''load'', n_pe = ''pe0'',
            n_config = MemoryConfig 4104 8\<rparr>]],
       lw_compute =
         \<lparr>n_id = ''a_compute'', n_kind = ''compute'', n_op = ''add'', n_pe = ''pe0'',
          n_config = ComputeConfig ''fp32'' 1\<rparr>,
       lw_stores = [],
       lw_edges = [data_edge ''a_load_0_chunk_0'' ''a_compute'',
                   data_edge ''a_load_0_chunk_1'' ''a_compute'']\<rparr>,
      \<lparr>lw_loads = [],
       lw_compute =
         \<lparr>n_id = ''b_compute'', n_kind = ''compute'', n_op = ''mul'', n_pe = ''pe0'',
          n_config = ComputeConfig ''fp32'' 4\<rparr>,
       lw_stores =
         [[\<lparr>n_id = ''b_store_0_chunk_0'', n_kind = ''memory'', n_op = ''store'', n_pe = ''pe0'',
            n_config = MemoryConfig 4160 8\<rparr>,
           \<lparr>n_id = ''b_store_0_chunk_1'', n_kind = ''memory'', n_op = ''store'', n_pe = ''pe0'',
            n_config = MemoryConfig 4168 8\<rparr>]],
       lw_edges = [data_edge ''b_compute'' ''b_store_0_chunk_0'',
                   data_edge ''b_compute'' ''b_store_0_chunk_1'']\<rparr>]"

text \<open>
  The first platform with an element whose \<^verbatim>\<open>config\<close> is null, and with an element whose
  \<^verbatim>\<open>sram_bytes\<close> is the string \<^verbatim>\<open>2MB\<close>.
\<close>

definition null_config_platform :: platform_config where
  "null_config_platform =
     ex_platform\<lparr>pc_processing_elements :=
       Some [\<lparr>pe_name = ''pe0'', pe_config = ConfigNotMapping\<rparr>]\<rparr>"

definition bad_sram_platform :: platform_config where
  "bad_sram_platform =
     ex_platform\<lparr>pc_processing_elements :=
       Some [\<lparr>pe_name = ''pe0'', pe_config = ConfigMapping (Some (SramStr ''2MB''))\<rparr>]\<rparr>"

section \<open>Element type codes\<close>

lemmas dtype_codes =
  FLOAT_def UINT8_def INT8_def UINT16_def INT16_def INT32_def INT64_def BOOL_def
  FLOAT16_def DOUBLE_def UINT32_def UINT64_def COMPLEX64_def COMPLEX128_def BFLOAT16_def

section \<open>Chunking\<close>

lemma ceil_div_aux: "1 \<le> (C::int) \<Longrightarrow> (S + C - 1) div C = - ((- S) div C)"
proof -
  assume C: "1 \<le> C"
  define q where "q = (- S) div C"
  define r where "r = (- S) mod C"
  have S: "- S = q * C + r" and r: "0 \<le> r" "r < C"
    using C by (simp_all add: q_def r_def)
  have e: "S + C - 1 = (C - 1 - r) + (- q) * C" using S by (simp add: algebra_simps)
  have z: "(C - 1 - r) div C = 0" using r by (simp add: div_pos_pos_trivial)
  have "C \<noteq> 0" using C by simp
  hence "((C - 1 - r) + (- q) * C) div C = (- q) + (C - 1 - r) div C"
    by (rule div_mult_self1)
  with z have "((C - 1 - r) + (- q) * C) div C = - q" by simp
  hence "(S + C - 1) div C = - q" by (simp only: e)
  thus ?thesis by (simp add: q_def)
qed

lemma ceil_div: "1 \<le> (C::int) \<Longrightarrow> (S + C - 1) div C = \<lceil>real_of_int S / real_of_int C\<rceil>"
  by (simp add: ceil_div_aux ceiling_divide_eq_div)





section \<open>The tensor table is total and resolved\<close>

lemma set_update_subset: "set (AList.update k v al) \<subseteq> insert (k, v) (set al)"
  by (induction al) auto

lemma int_prod_ge1:
  assumes "1 \<le> (a::int)" and "1 \<le> b"
  shows "1 \<le> a * b"
proof -
  have "1 * 1 \<le> a * b" using assms by (intro mult_mono) simp_all
  thus ?thesis by simp
qed

lemma num_elements_pos: "1 \<le> get_tensor_num_elements s"
proof (induction s)
  case Nil
  show ?case by simp
next
  case (Cons d ds)
  have "1 \<le> v * get_tensor_num_elements ds" if "0 < v" for v
    using that Cons.IH by (intro int_prod_ge1) simp_all
  with Cons.IH show ?case by (simp split: option.split)
qed

lemma dtype_size_pos: "1 \<le> (case map_of DTYPE_SIZES d of None \<Rightarrow> 4 | Some w \<Rightarrow> w)"
  by (simp add: DTYPE_SIZES_def dtype_codes)

lemma size_bytes_pos: "1 \<le> get_tensor_size_bytes s d"
  unfolding get_tensor_size_bytes_def
  by (intro int_prod_ge1 num_elements_pos dtype_size_pos)

lemma declared_info_resolved: "resolved_info (declared_info imap vi)"
  by (simp add: declared_info_def resolved_info_def Let_def size_bytes_pos)

lemma initializer_info_resolved: "resolved_info (initializer_info i)"
  by (simp add: initializer_info_def resolved_info_def Let_def size_bytes_pos)

lemma fallback_info_resolved: "resolved_info fallback_info"
  by (simp add: fallback_info_def resolved_info_def size_bytes_pos)

lemma table_inv_update:
  "table_inv t \<Longrightarrow> resolved_info v \<Longrightarrow> table_inv (AList.update k v t)"
  unfolding table_inv_def using set_update_subset[of k v t]
  by (auto simp: distinct_update)

lemma table_inv_ensure: "table_inv t \<Longrightarrow> table_inv (ensure_tensor n t)"
  by (simp add: ensure_tensor_def table_inv_update fallback_info_resolved)

lemma keys_ensure: "fst ` set (ensure_tensor n t) = fst ` set t \<union> (set [n] - {[]})"
  by (auto simp: ensure_tensor_def dom_update map_of_eq_None_iff)

lemma fold_declared:
  "table_inv t \<Longrightarrow>
   table_inv (fold (\<lambda>vi tensors. AList.update (vi_name vi) (declared_info imap vi) tensors) vis t)
   \<and> fst ` set (fold (\<lambda>vi tensors. AList.update (vi_name vi) (declared_info imap vi) tensors) vis t)
       = fst ` set t \<union> vi_name ` set vis"
  by (induction vis arbitrary: t)
     (auto simp: table_inv_update declared_info_resolved dom_update)

lemma fold_initializers:
  "table_inv t \<Longrightarrow>
   table_inv (fold (\<lambda>init tensors. AList.update (init_name init) (initializer_info init) tensors) is t)
   \<and> fst ` set (fold (\<lambda>init tensors. AList.update (init_name init) (initializer_info init) tensors) is t)
       = fst ` set t \<union> init_name ` set is"
  by (induction "is" arbitrary: t)
     (auto simp: table_inv_update initializer_info_resolved dom_update)

lemma fold_ensure:
  "table_inv t \<Longrightarrow>
   table_inv (fold ensure_tensor ns t)
   \<and> fst ` set (fold ensure_tensor ns t) = fst ` set t \<union> (set ns - {[]})"
  by (induction ns arbitrary: t) (auto simp: table_inv_ensure keys_ensure)

lemma fold_nodes:
  "table_inv t \<Longrightarrow>
   table_inv (fold (\<lambda>nd tensors. fold ensure_tensor (node_input nd @ node_output nd) tensors) nds t)
   \<and> fst ` set (fold (\<lambda>nd tensors. fold ensure_tensor (node_input nd @ node_output nd) tensors) nds t)
       = fst ` set t \<union> ((\<Union> ((\<lambda>nd. set (node_input nd) \<union> set (node_output nd)) ` set nds)) - {[]})"
proof (induction nds arbitrary: t)
  case Nil
  then show ?case by simp
next
  case (Cons nd nds)
  from fold_ensure[OF Cons.prems, of "node_input nd @ node_output nd"]
  have a: "table_inv (fold ensure_tensor (node_input nd @ node_output nd) t)"
    and b: "fst ` set (fold ensure_tensor (node_input nd @ node_output nd) t)
            = fst ` set t \<union> (set (node_input nd @ node_output nd) - {[]})" by simp_all
  from Cons.IH[OF a] b show ?case by auto
qed

lemma collect_tensors_inv: "table_inv (collect_tensors g)"
  and collect_tensors_keys: "referenced_names g - {[]} \<subseteq> fst ` set (collect_tensors g)"
proof -
  have e: "table_inv []" by (simp add: table_inv_def)
  define imap where "imap = initializer_map (g_initializer g)"
  define t1 where "t1 = fold (\<lambda>vi tensors. AList.update (vi_name vi) (declared_info imap vi) tensors)
                 (g_value_info g @ g_input g @ g_output g) []"
  define t2 where "t2 = fold (\<lambda>init tensors. AList.update (init_name init) (initializer_info init) tensors)
                 (g_initializer g) t1"
  define t3 where "t3 = fold (\<lambda>nd tensors. fold ensure_tensor (node_input nd @ node_output nd) tensors)
           (g_node g) t2"
  have c: "collect_tensors g = t3"
    by (simp add: collect_tensors_def Let_def t3_def t2_def t1_def imap_def)
  have 1: "table_inv t1" "fst ` set t1 = vi_name ` set (g_value_info g @ g_input g @ g_output g)"
    using fold_declared[OF e, of imap "g_value_info g @ g_input g @ g_output g"]
    unfolding t1_def[symmetric] by simp_all
  have 2: "table_inv t2" "fst ` set t2 = fst ` set t1 \<union> init_name ` set (g_initializer g)"
    using fold_initializers[OF 1(1), of "g_initializer g"]
    unfolding t2_def[symmetric] by simp_all
  have 3: "table_inv t3"
    "fst ` set t3 = fst ` set t2
       \<union> ((\<Union> ((\<lambda>nd. set (node_input nd) \<union> set (node_output nd)) ` set (g_node g))) - {[]})"
    using fold_nodes[OF 2(1), of "g_node g"] unfolding t3_def[symmetric] by simp_all
  show "table_inv (collect_tensors g)" using 3(1) by (simp add: c)
  show "referenced_names g - {[]} \<subseteq> fst ` set (collect_tensors g)"
    unfolding c referenced_names_def 3(2) 2(2) 1(2) by auto
qed

lemma layout_loop_keys:
  "layout_loop dl ts idx da ta = Inr (addrs, pls) \<Longrightarrow>
   fst ` set addrs = fst ` set ta \<union> fst ` set ts"
proof (induction ts arbitrary: idx da ta addrs pls)
  case Nil
  then show ?case by simp
next
  case (Cons t ts)
  obtain n s d z where t: "t = (n, (s, d, z))" by (cases t) auto
  from Cons.prems obtain idx' da' a pls' where
    r: "layout_loop dl ts idx' da' (AList.update n a ta) = Inr (addrs, pls')"
    unfolding t by (auto simp: Let_def split: if_splits option.splits sum.splits)
  from Cons.IH[OF r] show ?case by (simp add: t dom_update)
qed

lemma layout_tensors_keys:
  assumes "layout_tensors tensors pc = Inr addrs"
  shows "fst ` set addrs = fst ` set tensors"
proof -
  from assms obtain pls where "layout_placements tensors pc = Inr (addrs, pls)"
    by (auto simp: layout_tensors_def split: sum.splits)
  then obtain dl da where "layout_loop dl (sorted_tensors tensors) 0 da [] = Inr (addrs, pls)"
    by (auto simp: layout_placements_def Let_def split: option.splits list.splits if_splits)
  from layout_loop_keys[OF this] show ?thesis by (simp add: sorted_tensors_def)
qed

section \<open>The allocator succeeds on a platform with memory ranges\<close>

lemma fold_device_addresses:
  "distinct (map fst da) \<Longrightarrow>
   distinct (map fst (fold (\<lambda>range_info device_addresses.
             (let device = (case ri_device range_info of None \<Rightarrow> ''hbm0'' | Some d \<Rightarrow> d);
                  base = (case ri_base_address range_info of None \<Rightarrow> 0 | Some b \<Rightarrow> b)
              in if map_of device_addresses device = None
                 then AList.update device base device_addresses
                 else device_addresses)) ranges da))
   \<and> fst ` set (fold (\<lambda>range_info device_addresses.
             (let device = (case ri_device range_info of None \<Rightarrow> ''hbm0'' | Some d \<Rightarrow> d);
                  base = (case ri_base_address range_info of None \<Rightarrow> 0 | Some b \<Rightarrow> b)
              in if map_of device_addresses device = None
                 then AList.update device base device_addresses
                 else device_addresses)) ranges da)
      = fst ` set da \<union> range_device ` set ranges"
proof (induction ranges arbitrary: da)
  case Nil
  then show ?case by simp
next
  case (Cons r rs)
  define da' where "da' = (let device = (case ri_device r of None \<Rightarrow> ''hbm0'' | Some d \<Rightarrow> d);
                  base = (case ri_base_address r of None \<Rightarrow> 0 | Some b \<Rightarrow> b)
              in if map_of da device = None
                 then AList.update device base da
                 else da)"
  have d: "distinct (map fst da')" using Cons.prems
    by (simp add: da'_def Let_def distinct_update)
  have k: "fst ` set da' = fst ` set da \<union> {range_device r}"
    by (auto simp: da'_def Let_def dom_update range_device_def map_of_eq_None_iff)
  from Cons.IH[OF d] k show ?case
    unfolding da'_def by (simp add: Un_assoc)
qed

lemma init_device_addresses_keys:
  "distinct (map fst (init_device_addresses ranges))"
  "fst ` set (init_device_addresses ranges) = range_device ` set ranges"
  using fold_device_addresses[of "[]" ranges] by (simp_all add: init_device_addresses_def)

lemma layout_loop_Inr:
  "idx < length dl \<Longrightarrow> set dl \<subseteq> fst ` set da \<Longrightarrow> \<exists>r. layout_loop dl ts idx da ta = Inr r"
proof (induction ts arbitrary: idx da ta)
  case Nil
  show ?case by simp
next
  case (Cons t ts)
  obtain n s d z where t: "t = (n, (s, d, z))" by (cases t) auto
  from Cons.prems have "dl ! idx \<in> fst ` set da" by (auto simp: subset_iff)
  then obtain a where a: "map_of da (dl ! idx) = Some a"
    by (cases "map_of da (dl ! idx)") (simp_all add: map_of_eq_None_iff)
  from Cons.prems(1) have "0 < length dl" by (cases dl) simp_all
  hence i: "(idx + 1) mod length dl < length dl" by (rule mod_less_divisor)
  have k: "set dl \<subseteq> fst ` set (AList.update (dl ! idx) (a + aligned_size z) da)"
    using Cons.prems(2) by (auto simp: dom_update)
  from Cons.IH[OF i k] obtain r where
    "layout_loop dl ts ((idx + 1) mod length dl)
       (AList.update (dl ! idx) (a + aligned_size z) da) (AList.update n a ta) = Inr r"
    by blast
  with Cons.prems(1) a show ?case by (cases r) (simp add: t Let_def)
qed

lemma layout_placements_Inr:
  assumes "pc_memory_maps pc = Some (mm # mms)" and "mm_ranges mm = Some (r # rs)"
  shows "\<exists>res. layout_placements T pc = Inr res"
proof -
  define da where "da = init_device_addresses (r # rs)"
  have "fst ` set da \<noteq> {}" by (simp add: da_def init_device_addresses_keys(2))
  hence ne: "map fst da \<noteq> []" by auto
  hence "0 < length (map fst da)" by simp
  moreover have "set (map fst da) \<subseteq> fst ` set da" by simp
  ultimately obtain res where "layout_loop (map fst da) (sorted_tensors T) 0 da [] = Inr res"
    using layout_loop_Inr by blast
  with assms ne show ?thesis
    by (simp add: layout_placements_def Let_def da_def[symmetric])
qed

lemma layout_tensors_Inr:
  assumes "pc_memory_maps pc = Some (mm # mms)" and "mm_ranges mm = Some (r # rs)"
  shows "\<exists>addrs. layout_tensors T pc = Inr addrs"
  using layout_placements_Inr[OF assms, of T]
  by (auto simp: layout_tensors_def split: sum.splits)

lemma layout_placements_Inl:
  "layout_placements T pc = Inl e \<Longrightarrow> e = NoMemoryMaps \<or> e = NoMemoryRanges"
proof -
  assume a: "layout_placements T pc = Inl e"
  show ?thesis
  proof (cases "\<exists>mm mms r rs. pc_memory_maps pc = Some (mm # mms) \<and> mm_ranges mm = Some (r # rs)")
    case True
    then show ?thesis using layout_placements_Inr[of pc _ _ _ _ T] a by fastforce
  next
    case False
    with a show ?thesis
      by (auto simp: layout_placements_def split: option.splits list.splits)
  qed
qed

section \<open>Lowering succeeds on resolved names\<close>

lemma names_resolved_Cons:
  "names_resolved T A (n # ns) =
     ((n \<noteq> [] \<longrightarrow> map_of A n \<noteq> None \<and> (\<exists>s d z. map_of T n = Some (Some s, d, z)))
      \<and> names_resolved T A ns)"
  by (simp add: names_resolved_def)

lemma names_resolved_append:
  "names_resolved T A (xs @ ys) = (names_resolved T A xs \<and> names_resolved T A ys)"
  by (auto simp: names_resolved_def)

lemma split_memory_op_Inr:
  "sram \<noteq> 0 \<Longrightarrow> \<exists>ops. split_memory_op b t p a z sram = Inr ops"
  by (simp add: split_memory_op_def Let_def)

lemma split_memory_op_Inl:
  "split_memory_op b t p a z sram = Inl e \<Longrightarrow> e = ZeroDivisionError \<and> sram = 0"
  by (simp add: split_memory_op_def Let_def split: if_splits)

lemma emit_memory_ops_Inr:
  "names_resolved T A names \<Longrightarrow> sram \<noteq> 0 \<Longrightarrow>
   \<exists>groups. emit_memory_ops nm t p sram T A i names = Inr groups"
proof (induction names arbitrary: i)
  case Nil
  show ?case by simp
next
  case (Cons n ns)
  from Cons.prems(1) have r: "names_resolved T A ns" by (simp add: names_resolved_Cons)
  from Cons.IH[OF r Cons.prems(2)] obtain gs where
    gs: "emit_memory_ops nm t p sram T A (i + 1) ns = Inr gs" by blast
  show ?case
  proof (cases "n = []")
    case True
    with gs show ?thesis by simp
  next
    case False
    with Cons.prems(1) obtain a s d z where
      a: "map_of A n = Some a" and z: "map_of T n = Some (Some s, d, z)"
      by (auto simp: names_resolved_Cons)
    from split_memory_op_Inr[OF Cons.prems(2)] obtain ops where
      "split_memory_op (nm @ ''_'' @ t @ ''_'' @ str_nat i) t p a z sram = Inr ops" by blast
    with False a z gs show ?thesis by (simp add: Let_def)
  qed
qed

lemma emit_memory_ops_Inl:
  "names_resolved T A names \<Longrightarrow> emit_memory_ops nm t p sram T A i names = Inl e \<Longrightarrow>
   e = ZeroDivisionError \<and> sram = 0"
proof (induction names arbitrary: i)
  case Nil
  then show ?case by simp
next
  case (Cons n ns)
  from Cons.prems(1) have r: "names_resolved T A ns" by (simp add: names_resolved_Cons)
  show ?case
  proof (cases "n = []")
    case True
    with Cons.prems(2) Cons.IH[OF r] show ?thesis by simp
  next
    case False
    with Cons.prems(1) obtain a s d z where
      a: "map_of A n = Some a" and z: "map_of T n = Some (Some s, d, z)"
      by (auto simp: names_resolved_Cons)
    from Cons.prems(2) False a z Cons.IH[OF r] show ?thesis
      by (auto simp: Let_def split: sum.splits dest: split_memory_op_Inl)
  qed
qed

lemma compute_loop_Inr:
  "names_resolved T A names \<Longrightarrow> \<exists>r. compute_loop T names m d = Inr r"
proof (induction names arbitrary: m d)
  case Nil
  show ?case by simp
next
  case (Cons n ns)
  from Cons.prems(1) have r: "names_resolved T A ns" by (simp add: names_resolved_Cons)
  show ?case
  proof (cases "n = []")
    case True
    with Cons.IH[OF r] show ?thesis by simp
  next
    case False
    with Cons.prems(1) obtain s dt z where z: "map_of T n = Some (Some s, dt, z)"
      by (auto simp: names_resolved_Cons)
    with False Cons.IH[OF r] show ?thesis by (simp add: calculate_num_ops_def)
  qed
qed

lemma lower_node_Inr:
  assumes "names_resolved T A (node_input nd @ node_output nd)"
    and "get_pe_sram_bytes py pes p = Inr c" and "c \<noteq> 0"
  shows "\<exists>lw. lower_node py T A pes p nd = Inr lw"
proof -
  from assms(1) have i: "names_resolved T A (node_input nd)" and o: "names_resolved T A (node_output nd)"
    by (simp_all add: names_resolved_append)
  from emit_memory_ops_Inr[OF i assms(3)] obtain ls where
    "emit_memory_ops (node_name nd) ''load'' p c T A 0 (node_input nd) = Inr ls"
    by blast
  moreover from emit_memory_ops_Inr[OF o assms(3)] obtain ss where
    "emit_memory_ops (node_name nd) ''store'' p c T A 0 (node_output nd) = Inr ss"
    by blast
  moreover from compute_loop_Inr[OF o] obtain r where
    "compute_loop T (node_output nd) 1 ''fp32'' = Inr r" by blast
  ultimately show ?thesis by (cases r) (simp add: lower_node_def Let_def assms(2))
qed

lemma int_failure_error_cases:
  "int_failure_error f \<in> {ValueError, TypeError, OverflowError}"
  by (cases f) simp_all

lemma get_pe_sram_bytes_Inl:
  "get_pe_sram_bytes py pes p = Inl e \<Longrightarrow>
   e \<in> {AttributeError, ValueError, TypeError, OverflowError}"
proof (induction pes)
  case Nil
  then show ?case by simp
next
  case (Cons pe pes)
  show ?case
  proof (cases "pe_name pe = p")
    case False
    with Cons show ?thesis by simp
  next
    case True
    show ?thesis
    proof (cases "pe_config pe")
      case ConfigAbsent
      with True Cons show ?thesis by simp
    next
      case ConfigNotMapping
      with True Cons.prems show ?thesis by simp
    next
      case (ConfigMapping v)
      show ?thesis
      proof (cases v)
        case None
        with True ConfigMapping Cons show ?thesis by simp
      next
        case (Some sv)
        show ?thesis
        proof (cases sv)
          case (SramInt n)
          with True ConfigMapping Some Cons.prems show ?thesis by simp
        next
          case (SramStr str)
          with True ConfigMapping Some Cons.prems show ?thesis
            by (simp split: option.splits)
        next
          case (SramOther c)
          with True ConfigMapping Some Cons.prems int_failure_error_cases show ?thesis
            by (cases c) auto
        qed
      qed
    qed
  qed
qed

lemma lower_node_Inl:
  assumes "names_resolved T A (node_input nd @ node_output nd)"
    and "lower_node py T A pes p nd = Inl e"
  shows "get_pe_sram_bytes py pes p = Inl e
         \<or> e = ZeroDivisionError \<and> get_pe_sram_bytes py pes p = Inr 0"
proof (cases "get_pe_sram_bytes py pes p")
  case (Inl e')
  with assms(2) show ?thesis by (simp add: lower_node_def Let_def)
next
  case (Inr c)
  from assms(1) have i: "names_resolved T A (node_input nd)" and o: "names_resolved T A (node_output nd)"
    by (simp_all add: names_resolved_append)
  from compute_loop_Inr[OF o] obtain r where
    "compute_loop T (node_output nd) 1 ''fp32'' = Inr r" by blast
  with assms(2) Inr show ?thesis
    by (auto simp: lower_node_def Let_def split: sum.splits prod.splits
             dest: emit_memory_ops_Inl[OF i] emit_memory_ops_Inl[OF o])
qed

lemma walk_Inr_nth:
  "walk py T A pes names idx cur nodes = Inr lws \<Longrightarrow>
   length lws = length nodes \<and>
   (\<forall>k < length nodes. node_name (nodes ! k) \<noteq> [] \<and>
      lower_node py T A pes (names ! ((cur + k) mod length names)) (nodes ! k) = Inr (lws ! k))"
proof (induction nodes arbitrary: idx cur lws)
  case Nil
  then show ?case by simp
next
  case (Cons nd nodes)
  let ?K = "length names"
  from Cons.prems obtain lw rest where
    nm: "node_name nd \<noteq> []" and cur: "cur < ?K"
    and lw: "lower_node py T A pes (names ! cur) nd = Inr lw"
    and rest: "walk py T A pes names (idx + 1) ((cur + 1) mod ?K) nodes = Inr rest"
    and lws: "lws = lw # rest"
    by (auto split: if_splits sum.splits)
  from Cons.IH[OF rest] have len: "length rest = length nodes"
    and nth: "\<And>k. k < length nodes \<Longrightarrow> node_name (nodes ! k) \<noteq> [] \<and>
      lower_node py T A pes (names ! (((cur + 1) mod ?K + k) mod ?K)) (nodes ! k) = Inr (rest ! k)"
    by simp_all
  have shift: "(Suc cur mod ?K + k) mod ?K = Suc (cur + k) mod ?K" for k
    by (simp add: mod_add_left_eq)
  show ?case
  proof (intro conjI allI impI)
    show "length lws = length (nd # nodes)" by (simp add: lws len)
  next
    fix k assume k: "k < length (nd # nodes)"
    show "node_name ((nd # nodes) ! k) \<noteq> []"
      using nm nth k by (cases k) simp_all
    show "lower_node py T A pes (names ! ((cur + k) mod ?K)) ((nd # nodes) ! k) = Inr (lws ! k)"
    proof (cases k)
      case 0
      with lw cur show ?thesis by (simp add: lws)
    next
      case (Suc j)
      with k nth[of j] show ?thesis by (simp add: lws shift)
    qed
  qed
qed

lemma walk_Inr:
  assumes "\<forall>nd \<in> set nodes. names_resolved T A (node_input nd @ node_output nd)"
    and "\<forall>n \<in> set names. \<exists>c. get_pe_sram_bytes py pes n = Inr c \<and> c \<noteq> 0"
    and "names \<noteq> []"
    and "cur < length names"
    and "\<forall>nd \<in> set nodes. node_name nd \<noteq> []"
  shows "\<exists>lws. walk py T A pes names idx cur nodes = Inr lws"
  using assms(1,4,5)
proof (induction nodes arbitrary: idx cur)
  case Nil
  show ?case by simp
next
  case (Cons nd nodes)
  have "(cur + 1) mod length names < length names" using assms(3) by simp
  with Cons obtain rest where
    "walk py T A pes names (idx + 1) ((cur + 1) mod length names) nodes = Inr rest"
    by (metis list.set_intros(2))
  moreover from assms(2) nth_mem[OF Cons.prems(2)] obtain c where
    "get_pe_sram_bytes py pes (names ! cur) = Inr c" and "c \<noteq> 0" by blast
  with Cons.prems(1) obtain lw where
    "lower_node py T A pes (names ! cur) nd = Inr lw"
    using lower_node_Inr[of T A nd py pes "names ! cur" c] by auto
  ultimately show ?case using Cons.prems(2,3) by simp
qed

lemma walk_missing_name:
  assumes "\<forall>nd \<in> set nodes. names_resolved T A (node_input nd @ node_output nd)"
    and "\<forall>n \<in> set names. \<exists>c. get_pe_sram_bytes py pes n = Inr c \<and> c \<noteq> 0"
    and "names \<noteq> []"
    and "cur < length names"
    and "i < length nodes"
    and "node_name (nodes ! i) = []"
    and "\<forall>j < i. node_name (nodes ! j) \<noteq> []"
  shows "walk py T A pes names idx cur nodes = Inl (MissingName (idx + i))"
  using assms(1,4,5,6,7)
proof (induction nodes arbitrary: idx cur i)
  case Nil
  then show ?case by simp
next
  case (Cons nd nodes)
  show ?case
  proof (cases i)
    case 0
    with Cons.prems show ?thesis by simp
  next
    case (Suc j)
    have c: "(cur + 1) mod length names < length names" using assms(3) by simp
    from Cons.prems Suc have nm: "node_name nd \<noteq> []" by auto
    from Cons.prems Suc have j: "j < length nodes" "node_name (nodes ! j) = []"
      "\<forall>k < j. node_name (nodes ! k) \<noteq> []" by auto
    from Cons.prems(1) have r: "\<forall>nd \<in> set nodes. names_resolved T A (node_input nd @ node_output nd)"
      by simp
    from Cons.IH[OF r c j, of "idx + 1"]
    have w: "walk py T A pes names (idx + 1) ((cur + 1) mod length names) nodes
              = Inl (MissingName (idx + i))" by (simp add: Suc)
    from assms(2) nth_mem[OF Cons.prems(2)] obtain c where
      "get_pe_sram_bytes py pes (names ! cur) = Inr c" and "c \<noteq> 0" by blast
    with Cons.prems(1) obtain lw where
      "lower_node py T A pes (names ! cur) nd = Inr lw"
      using lower_node_Inr[of T A nd py pes "names ! cur" c] by auto
    with w nm Cons.prems(2) show ?thesis by simp
  qed
qed

lemma walk_Inl:
  assumes "\<forall>nd \<in> set nodes. names_resolved T A (node_input nd @ node_output nd)"
    and "names \<noteq> []"
    and "cur < length names"
    and "walk py T A pes names idx cur nodes = Inl e"
  shows "(\<exists>i. e = MissingName (idx + i) \<and> i < length nodes \<and> node_name (nodes ! i) = []
              \<and> (\<forall>j < i. node_name (nodes ! j) \<noteq> []))
         \<or> (\<exists>n \<in> set names. get_pe_sram_bytes py pes n = Inl e
                \<or> e = ZeroDivisionError \<and> get_pe_sram_bytes py pes n = Inr 0)"
  using assms(1,3,4)
proof (induction nodes arbitrary: idx cur)
  case Nil
  then show ?case by simp
next
  case (Cons nd nodes)
  have c: "(cur + 1) mod length names < length names" using assms(2) by simp
  from Cons.prems(1) have r: "\<forall>nd \<in> set nodes. names_resolved T A (node_input nd @ node_output nd)"
    and n: "names_resolved T A (node_input nd @ node_output nd)" by simp_all
  from Cons.prems(2) have mem: "names ! cur \<in> set names" by simp
  show ?case
  proof (cases "node_name nd = []")
    case True
    with Cons.prems(3) have "e = MissingName (idx + 0)" by simp
    with True show ?thesis by (intro disjI1 exI[of _ 0]) simp
  next
    case False
    show ?thesis
    proof (cases "lower_node py T A pes (names ! cur) nd")
      case (Inl e')
      with Cons.prems(2,3) False have "e' = e" by simp
      with lower_node_Inl[OF n Inl] mem show ?thesis by blast
    next
      case (Inr lw)
      with Cons.prems(2,3) False
      have w: "walk py T A pes names (idx + 1) ((cur + 1) mod length names) nodes = Inl e"
        by (simp split: sum.splits)
      from Cons.IH[OF r c w] show ?thesis
      proof
        assume "\<exists>i. e = MissingName (idx + 1 + i) \<and> i < length nodes \<and> node_name (nodes ! i) = []
              \<and> (\<forall>j < i. node_name (nodes ! j) \<noteq> [])"
        then obtain i where i: "e = MissingName (idx + 1 + i)" "i < length nodes"
          "node_name (nodes ! i) = []" "\<forall>j < i. node_name (nodes ! j) \<noteq> []" by blast
        have "\<forall>j < Suc i. node_name ((nd # nodes) ! j) \<noteq> []"
          using i(4) False by (auto simp: nth_Cons split: nat.splits)
        with i(1,2,3) show ?thesis by (intro disjI1 exI[of _ "Suc i"]) simp
      next
        assume "\<exists>n \<in> set names. get_pe_sram_bytes py pes n = Inl e
                \<or> e = ZeroDivisionError \<and> get_pe_sram_bytes py pes n = Inr 0"
        thus ?thesis by (rule disjI2)
      qed
    qed
  qed
qed

lemma graph_names_resolved:
  assumes "layout_tensors (collect_tensors g) pc = Inr addrs"
  shows "\<forall>nd \<in> set (g_node g). names_resolved (collect_tensors g) addrs (node_input nd @ node_output nd)"
proof (intro ballI)
  fix nd assume nd: "nd \<in> set (g_node g)"
  have keys: "fst ` set addrs = fst ` set (collect_tensors g)"
    using assms by (rule layout_tensors_keys)
  show "names_resolved (collect_tensors g) addrs (node_input nd @ node_output nd)"
    unfolding names_resolved_def
  proof (intro ballI impI)
    fix n assume n: "n \<in> set (node_input nd @ node_output nd)" and ne: "n \<noteq> []"
    with nd have "n \<in> referenced_names g - {[]}" by (auto simp: referenced_names_def)
    with collect_tensors_keys have k: "n \<in> fst ` set (collect_tensors g)" by blast
    hence a: "map_of addrs n \<noteq> None" using keys by (simp add: map_of_eq_None_iff)
    from k obtain info where i: "map_of (collect_tensors g) n = Some info"
      by (cases "map_of (collect_tensors g) n") (simp_all add: map_of_eq_None_iff)
    hence "(n, info) \<in> set (collect_tensors g)" by (rule map_of_SomeD)
    with collect_tensors_inv[of g] have "resolved_info info" by (auto simp: table_inv_def)
    then obtain s d z where "info = (Some s, d, z)"
      by (cases info) (auto simp: resolved_info_def)
    with a i show "map_of addrs n \<noteq> None \<and> (\<exists>s d z. map_of (collect_tensors g) n = Some (Some s, d, z))"
      by simp
  qed
qed

lemma lower_node_InrD:
  assumes "lower_node py T A pes p nd = Inr lw"
  shows "emit_memory_ops (node_name nd) ''load'' p (projr (get_pe_sram_bytes py pes p)) T A 0
           (node_input nd) = Inr (lw_loads lw)"
    and "emit_memory_ops (node_name nd) ''store'' p (projr (get_pe_sram_bytes py pes p)) T A 0
           (node_output nd) = Inr (lw_stores lw)"
    and "\<exists>max_num_ops dtype_str.
           compute_loop T (node_output nd) 1 ''fp32'' = Inr (max_num_ops, dtype_str)
           \<and> lw_compute lw =
               \<lparr>n_id = node_name nd @ ''_compute'', n_kind = ''compute'',
                n_op = map_onnx_op_to_gwr_op (node_op_type nd), n_pe = p,
                n_config = ComputeConfig dtype_str max_num_ops\<rparr>"
    and "lw_edges lw =
           map (\<lambda>l. data_edge (n_id l) (n_id (lw_compute lw))) (concat (lw_loads lw)) @
           map (\<lambda>s. data_edge (n_id (lw_compute lw)) (n_id s)) (concat (lw_stores lw))"
    and "\<exists>c. get_pe_sram_bytes py pes p = Inr c"
  using assms
  by (auto simp: lower_node_def Let_def comp_def split: sum.splits prod.splits)

lemma lower_graph_InrD:
  assumes "lower_graph py g pc = Inr lws"
  shows "\<exists>addrs pes.
           layout_tensors (collect_tensors g) pc = Inr addrs
           \<and> pc_processing_elements pc = Some pes \<and> pes \<noteq> []
           \<and> length lws = length (g_node g)
           \<and> (\<forall>k < length (g_node g).
                 node_name (g_node g ! k) \<noteq> [] \<and>
                 lower_node py (collect_tensors g) addrs pes (pe_name (pes ! (k mod length pes)))
                   (g_node g ! k) = Inr (lws ! k))"
proof -
  from assms obtain addrs where l: "layout_tensors (collect_tensors g) pc = Inr addrs"
    by (auto simp: lower_graph_def Let_def split: sum.splits)
  define pes where "pes = (case pc_processing_elements pc of None \<Rightarrow> [] | Some ps \<Rightarrow> ps)"
  from assms l have ne: "pes \<noteq> []"
    and w: "walk py (collect_tensors g) addrs pes (map pe_name pes) 0 0 (g_node g) = Inr lws"
    by (auto simp: lower_graph_def Let_def pes_def split: if_splits)
  from ne have p: "pc_processing_elements pc = Some pes"
    by (auto simp: pes_def split: option.splits)
  have m: "k mod length pes < length pes" for k using ne by simp
  from walk_Inr_nth[OF w] m l p ne show ?thesis by (auto simp: nth_map)
qed

section \<open>Errors of the conversion\<close>

lemma lower_graph_Inl:
  assumes "lower_graph py g pc = Inl e"
  shows "e \<in> {NoMemoryMaps, NoMemoryRanges, NoProcessingElements, ZeroDivisionError,
               AttributeError, ValueError, TypeError, OverflowError}
         \<or> (\<exists>i. e = MissingName i)"
proof (cases "layout_tensors (collect_tensors g) pc")
  case (Inl e')
  with assms have "e = e'" by (simp add: lower_graph_def Let_def)
  moreover from Inl have "layout_placements (collect_tensors g) pc = Inl e'"
    by (auto simp: layout_tensors_def split: sum.splits)
  ultimately show ?thesis using layout_placements_Inl by blast
next
  case (Inr addrs)
  define pes where "pes = (case pc_processing_elements pc of None \<Rightarrow> [] | Some ps \<Rightarrow> ps)"
  show ?thesis
  proof (cases "pes = []")
    case True
    with assms Inr show ?thesis by (simp add: lower_graph_def Let_def pes_def)
  next
    case False
    with assms Inr have w: "walk py (collect_tensors g) addrs pes (map pe_name pes) 0 0 (g_node g) = Inl e"
      by (simp add: lower_graph_def Let_def pes_def)
    from False have "map pe_name pes \<noteq> []" "0 < length (map pe_name pes)" by simp_all
    from walk_Inl[OF graph_names_resolved[OF Inr] this w] get_pe_sram_bytes_Inl[of py pes _ e]
    show ?thesis by auto
  qed
qed

lemma onnx_to_gwr_timetable_Inl:
  "onnx_to_gwr_timetable py g pc = Inl e \<Longrightarrow> lower_graph py g pc = Inl e"
  by (simp add: onnx_to_gwr_timetable_def split: sum.splits)

text \<open>
  Claim C9. The tensor table built from a graph has one record per name; every non-empty
  name the graph refers to (declared lists, initializers, node inputs and outputs) has a
  record, with a shape and with \<open>size_bytes \<ge> 1\<close>; so the lookup inside the num_ops
  calculation succeeds on it, and so does the address lookup whenever the allocator
  returned an address map. The conversion therefore never ends in the
  "Output tensor not found" error, in the "unknown shape" error or in a failed
  dictionary lookup.
\<close>

theorem collect_tensors_total:
  "distinct (map fst (collect_tensors g))
   \<and> (\<forall>name \<in> referenced_names g. name \<noteq> [] \<longrightarrow>
        (\<exists>shp dtype size_bytes.
           map_of (collect_tensors g) name = Some (Some shp, dtype, size_bytes)
           \<and> 1 \<le> size_bytes
           \<and> calculate_num_ops (collect_tensors g) name = Inr (max 1 (get_tensor_num_elements shp))
           \<and> (\<forall>addrs. layout_tensors (collect_tensors g) pc = Inr addrs \<longrightarrow>
                (\<exists>a. map_of addrs name = Some a))))
   \<and> (\<forall>name. onnx_to_gwr_timetable py g pc \<noteq> Inl (OutputTensorNotFound name)
           \<and> onnx_to_gwr_timetable py g pc \<noteq> Inl (UnknownShape name)
           \<and> onnx_to_gwr_timetable py g pc \<noteq> Inl (KeyError name))"
proof (intro conjI ballI impI allI)
  show "distinct (map fst (collect_tensors g))"
    using collect_tensors_inv[of g] by (simp add: table_inv_def)
next
  fix name assume n: "name \<in> referenced_names g" and ne: "name \<noteq> []"
  with collect_tensors_keys[of g] have k: "name \<in> fst ` set (collect_tensors g)" by blast
  then obtain info where i: "map_of (collect_tensors g) name = Some info"
    by (cases "map_of (collect_tensors g) name") (simp_all add: map_of_eq_None_iff)
  hence "(name, info) \<in> set (collect_tensors g)" by (rule map_of_SomeD)
  with collect_tensors_inv[of g] have r: "resolved_info info" by (auto simp: table_inv_def)
  then obtain s d z where info: "info = (Some s, d, z)" and z: "1 \<le> z"
    by (cases info) (auto simp: resolved_info_def)
  have c: "calculate_num_ops (collect_tensors g) name = Inr (max 1 (get_tensor_num_elements s))"
    by (simp add: calculate_num_ops_def i info)
  have a: "\<exists>a. map_of addrs name = Some a"
    if "layout_tensors (collect_tensors g) pc = Inr addrs" for addrs
  proof -
    from layout_tensors_keys[OF that] k have "name \<in> fst ` set addrs" by simp
    thus ?thesis by (cases "map_of addrs name") (simp_all add: map_of_eq_None_iff)
  qed
  from i info z c a
  show "\<exists>shp dtype size_bytes.
           map_of (collect_tensors g) name = Some (Some shp, dtype, size_bytes)
           \<and> 1 \<le> size_bytes
           \<and> calculate_num_ops (collect_tensors g) name = Inr (max 1 (get_tensor_num_elements shp))
           \<and> (\<forall>addrs. layout_tensors (collect_tensors g) pc = Inr addrs \<longrightarrow>
                (\<exists>a. map_of addrs name = Some a))"
    by blast
next
  fix name
  show "onnx_to_gwr_timetable py g pc \<noteq> Inl (OutputTensorNotFound name)"
    using lower_graph_Inl[OF onnx_to_gwr_timetable_Inl, of py g pc "OutputTensorNotFound name"] by auto
  show "onnx_to_gwr_timetable py g pc \<noteq> Inl (UnknownShape name)"
    using lower_graph_Inl[OF onnx_to_gwr_timetable_Inl, of py g pc "UnknownShape name"] by auto
  show "onnx_to_gwr_timetable py g pc \<noteq> Inl (KeyError name)"
    using lower_graph_Inl[OF onnx_to_gwr_timetable_Inl, of py g pc "KeyError name"] by auto
qed

lemma ex_graph_names: "''y'' \<in> referenced_names ex_graph"
  by (simp add: referenced_names_def ex_graph_def)

theorem collect_tensors_total_witness:
  "''y'' \<in> referenced_names ex_graph \<and> ''y'' \<noteq> []
   \<and> (\<exists>shp dtype size_bytes.
         map_of (collect_tensors ex_graph) ''y'' = Some (Some shp, dtype, size_bytes)
         \<and> 1 \<le> size_bytes
         \<and> calculate_num_ops (collect_tensors ex_graph) ''y''
             = Inr (max 1 (get_tensor_num_elements shp)))"
proof -
  have n: "''y'' \<in> referenced_names ex_graph" by (rule ex_graph_names)
  have e: "''y'' \<noteq> []" by simp
  from collect_tensors_total[of ex_graph ex_platform decimal_int] n e
  show ?thesis by blast
qed

text \<open>
  Claim C8, as amended. On a platform with at least one memory range and at least one
  processing element: where the capacity of every element is found without an error and
  is not zero, a graph with an operation of empty name ends in the missing-name error
  that carries the index of the first such operation, and no timetable is returned. And
  whenever the conversion ends in an error, that error is the missing-name error of the
  first operation without a name, or it is the failure to find the capacity of an
  element (a \<^verbatim>\<open>config\<close> that is no mapping, an \<^verbatim>\<open>sram_bytes\<close> that is no integer), or the
  division by a capacity of zero: of the checks made per operation, only the check of the
  name stops the walk.
\<close>

theorem missing_name_aborts:
  assumes "pc_memory_maps pc = Some (mm # mms)"
    and "mm_ranges mm = Some (r # rs)"
    and "pc_processing_elements pc = Some (pe # pes)"
  shows "((\<forall>p \<in> set (pe # pes).
             \<exists>c. get_pe_sram_bytes py (pe # pes) (pe_name p) = Inr c \<and> c \<noteq> 0) \<longrightarrow>
          (\<forall>i. i < length (g_node g) \<and> node_name (g_node g ! i) = []
                  \<and> (\<forall>j < i. node_name (g_node g ! j) \<noteq> [])
                \<longrightarrow> onnx_to_gwr_timetable py g pc = Inl (MissingName i)))
       \<and> (\<forall>e. onnx_to_gwr_timetable py g pc = Inl e \<longrightarrow>
             (\<exists>i. e = MissingName i \<and> i < length (g_node g) \<and> node_name (g_node g ! i) = []
                    \<and> (\<forall>j < i. node_name (g_node g ! j) \<noteq> []))
             \<or> (\<exists>p \<in> set (pe # pes).
                    get_pe_sram_bytes py (pe # pes) (pe_name p) = Inl e
                    \<and> e \<in> {AttributeError, ValueError, TypeError, OverflowError}
                  \<or> e = ZeroDivisionError
                    \<and> get_pe_sram_bytes py (pe # pes) (pe_name p) = Inr 0))"
proof -
  from layout_tensors_Inr[OF assms(1,2)] obtain addrs where
    l: "layout_tensors (collect_tensors g) pc = Inr addrs" by blast
  let ?pes = "pe # pes"
  let ?w = "walk py (collect_tensors g) addrs ?pes (map pe_name ?pes) 0 0 (g_node g)"
  have lg: "lower_graph py g pc = ?w"
    by (simp add: lower_graph_def Let_def l assms(3))
  have res: "\<forall>nd \<in> set (g_node g). names_resolved (collect_tensors g) addrs (node_input nd @ node_output nd)"
    using l by (rule graph_names_resolved)
  have ne: "map pe_name ?pes \<noteq> []" and c: "0 < length (map pe_name ?pes)" by simp_all
  have first: "onnx_to_gwr_timetable py g pc = Inl (MissingName i)"
    if ok: "\<forall>p \<in> set ?pes. \<exists>c. get_pe_sram_bytes py ?pes (pe_name p) = Inr c \<and> c \<noteq> 0"
      and i: "i < length (g_node g) \<and> node_name (g_node g ! i) = []
                  \<and> (\<forall>j < i. node_name (g_node g ! j) \<noteq> [])" for i
  proof -
    from ok have sram: "\<forall>n \<in> set (map pe_name ?pes).
        \<exists>c. get_pe_sram_bytes py ?pes n = Inr c \<and> c \<noteq> 0"
      by (simp only: set_map ball_simps)
    from i have "?w = Inl (MissingName (0 + i))"
      by (intro walk_missing_name[OF res sram ne c]) simp_all
    thus ?thesis by (simp add: onnx_to_gwr_timetable_def lg)
  qed
  have only: "(\<exists>i. e = MissingName i \<and> i < length (g_node g) \<and> node_name (g_node g ! i) = []
                    \<and> (\<forall>j < i. node_name (g_node g ! j) \<noteq> []))
             \<or> (\<exists>p \<in> set ?pes.
                    get_pe_sram_bytes py ?pes (pe_name p) = Inl e
                    \<and> e \<in> {AttributeError, ValueError, TypeError, OverflowError}
                  \<or> e = ZeroDivisionError
                    \<and> get_pe_sram_bytes py ?pes (pe_name p) = Inr 0)"
    if "onnx_to_gwr_timetable py g pc = Inl e" for e
  proof -
    from that have w: "?w = Inl e"
      by (simp add: onnx_to_gwr_timetable_def lg split: sum.splits)
    from walk_Inl[OF res ne c w] show ?thesis
    proof
      assume "\<exists>i. e = MissingName (0 + i) \<and> i < length (g_node g) \<and> node_name (g_node g ! i) = []
              \<and> (\<forall>j < i. node_name (g_node g ! j) \<noteq> [])"
      thus ?thesis by simp
    next
      assume "\<exists>n \<in> set (map pe_name ?pes). get_pe_sram_bytes py ?pes n = Inl e
                \<or> e = ZeroDivisionError \<and> get_pe_sram_bytes py ?pes n = Inr 0"
      then obtain p where p: "p \<in> set ?pes"
        and d: "get_pe_sram_bytes py ?pes (pe_name p) = Inl e
                \<or> e = ZeroDivisionError \<and> get_pe_sram_bytes py ?pes (pe_name p) = Inr 0"
        by (auto simp only: set_map)
      from d get_pe_sram_bytes_Inl[of py ?pes "pe_name p" e]
      have "get_pe_sram_bytes py ?pes (pe_name p) = Inl e
                    \<and> e \<in> {AttributeError, ValueError, TypeError, OverflowError}
                  \<or> e = ZeroDivisionError
                    \<and> get_pe_sram_bytes py ?pes (pe_name p) = Inr 0" by blast
      with p show ?thesis by blast
    qed
  qed
  from first only show ?thesis by blast
qed

theorem missing_name_aborts_witness:
  "onnx_to_gwr_timetable decimal_int unnamed_graph ex_platform = Inl (MissingName 1)
   \<and> onnx_to_gwr_timetable decimal_int ex_graph null_config_platform = Inl AttributeError
   \<and> onnx_to_gwr_timetable decimal_int ex_graph bad_sram_platform = Inl ValueError"
proof -
  have n: "onnx_to_gwr_timetable decimal_int ex_graph null_config_platform = Inl AttributeError"
    by code_simp
  have b: "onnx_to_gwr_timetable decimal_int ex_graph bad_sram_platform = Inl ValueError"
    by code_simp
  let ?pe = "\<lparr>pe_name = ''pe0'', pe_config = ConfigMapping (Some (SramInt 8))\<rparr>"
  have 1: "pc_memory_maps ex_platform =
            Some (\<lparr>mm_ranges = Some [\<lparr>ri_device = Some ''hbm0'', ri_base_address = Some 4096\<rparr>]\<rparr> # [])"
    by (simp add: ex_platform_def)
  have 2: "mm_ranges \<lparr>mm_ranges = Some [\<lparr>ri_device = Some ''hbm0'', ri_base_address = Some 4096\<rparr>]\<rparr>
            = Some (\<lparr>ri_device = Some ''hbm0'', ri_base_address = Some 4096\<rparr> # [])"
    by simp
  have 3: "pc_processing_elements ex_platform = Some (?pe # [])"
    by (simp add: ex_platform_def)
  have 4: "\<forall>p \<in> set (?pe # []).
             \<exists>c. get_pe_sram_bytes decimal_int (?pe # []) (pe_name p) = Inr c \<and> c \<noteq> 0"
    by simp
  have 5: "1 < length (g_node unnamed_graph) \<and> node_name (g_node unnamed_graph ! 1) = []
           \<and> (\<forall>j < 1. node_name (g_node unnamed_graph ! j) \<noteq> [])"
    by (simp add: unnamed_graph_def ex_graph_def)
  from missing_name_aborts[OF 1 2 3, of decimal_int unnamed_graph] 4 5
  have "onnx_to_gwr_timetable decimal_int unnamed_graph ex_platform = Inl (MissingName 1)"
    by blast
  with n b show ?thesis by simp
qed

text \<open>
  Claim C8 as stated fails where an element's capacity is zero: the operation at index 1
  has no name, but the walk stops at operation 0, on the division by the capacity, and
  the error names no index.
\<close>

theorem zero_capacity_counterexample:
  "node_name (g_node unnamed_graph ! 1) = []
   \<and> onnx_to_gwr_timetable decimal_int unnamed_graph zero_sram_platform = Inl ZeroDivisionError"
  by code_simp

section \<open>The load and store records of an operation\<close>





section \<open>The compute record\<close>

lemma Max_insert_max:
  "finite B \<Longrightarrow> Max (insert (max m x) B) = Max (insert (m::int) (insert x B))"
  by (cases "B = {}") (simp_all add: max.assoc)

lemma compute_loop_char:
  "compute_loop T names m d = Inr (m', d') \<Longrightarrow>
   m' = Max (insert m ((\<lambda>n. max 1 (element_count T n)) ` set (non_empty names)))
   \<and> d' = (if non_empty names = [] then d
           else dtype_to_string (resolved_dtype T (last (non_empty names))))"
proof (induction names arbitrary: m d)
  case Nil
  then show ?case by (simp add: non_empty_def)
next
  case (Cons n ns)
  show ?case
  proof (cases "n = []")
    case True
    with Cons.prems have "compute_loop T ns m d = Inr (m', d')" by simp
    from Cons.IH[OF this] True show ?thesis by (simp add: non_empty_def)
  next
    case False
    with Cons.prems obtain x where x: "calculate_num_ops T n = Inr x"
      by (auto split: sum.splits)
    then obtain s dt z where t: "map_of T n = Some (Some s, dt, z)"
      and xv: "x = max 1 (get_tensor_num_elements s)"
      by (auto simp: calculate_num_ops_def split: option.splits)
    from Cons.prems False x t
    have r: "compute_loop T ns (max m x) (dtype_to_string dt) = Inr (m', d')" by simp
    have ec: "max 1 (element_count T n) = x" by (simp add: element_count_def t xv)
    have rd: "resolved_dtype T n = dt" by (simp add: resolved_dtype_def t)
    from Cons.IH[OF r] False show ?thesis
      by (simp add: non_empty_def ec rd Max_insert_max)
  qed
qed

lemma Max_insert_one:
  assumes "finite S"
  shows "Max (insert 1 ((\<lambda>n. max 1 (f n)) ` S)) = Max (insert (1::int) (f ` S))"
proof -
  let ?A = "insert (1::int) (f ` S)"
  have fin: "finite ?A" and ne: "?A \<noteq> {}" using assms by simp_all
  have "mono (max (1::int))" by (rule monoI) (simp add: max_def)
  hence "max 1 (Max ?A) = Max (max 1 ` ?A)" using fin ne by (rule mono_Max_commute)
  moreover have "max 1 ` ?A = insert 1 ((\<lambda>n. max 1 (f n)) ` S)" by (simp add: image_image)
  moreover have "1 \<le> Max ?A" using fin by (simp add: Max_ge)
  ultimately show ?thesis by (simp add: max_def)
qed

lemma dtype_to_string_name: "dtype_to_string code = dtype_name code"
  by (simp add: dtype_to_string_def dtype_name_def dtype_codes)

text \<open>
  Claim C5. For every operation of a graph that the converter lowers, the compute record
  is \<open><name>_compute\<close>, of kind compute, on the element the operation is assigned to.
  Its \<open>num_ops\<close> is the largest element count among the operation's non-empty outputs,
  and at least 1 (so 1 when there is none); its \<open>dtype\<close> is the type string of the
  element type of the last non-empty output (\<open>fp32\<close> for FLOAT, \<open>int64\<close> for INT64 and
  so on), and \<open>fp32\<close> when there is none; its \<open>op\<close> is the entry of the operation kind
  in the category table, and \<open>add\<close> for a kind the table does not have.
\<close>

theorem compute_record:
  assumes "lower_graph py g pc = Inr lws" and "k < length (g_node g)"
  shows "k < length lws
    \<and> lw_compute (lws ! k) \<in> set (tt_nodes (flatten_timetable lws))
    \<and> n_id (lw_compute (lws ! k)) = node_name (g_node g ! k) @ ''_compute''
    \<and> n_kind (lw_compute (lws ! k)) = ''compute''
    \<and> n_config (lw_compute (lws ! k)) =
        ComputeConfig
          (if non_empty (node_output (g_node g ! k)) = [] then ''fp32''
           else dtype_name
                  (resolved_dtype (collect_tensors g) (last (non_empty (node_output (g_node g ! k))))))
          (Max (insert 1 (element_count (collect_tensors g) `
                            set (non_empty (node_output (g_node g ! k))))))
    \<and> n_op (lw_compute (lws ! k)) =
        (case map_of op_map (node_op_type (g_node g ! k)) of
           Some category \<Rightarrow> category
         | None \<Rightarrow> ''add'')"
proof -
  from lower_graph_InrD[OF assms(1)] assms(2) obtain addrs pes where
    len: "length lws = length (g_node g)"
    and lw: "lower_node py (collect_tensors g) addrs pes (pe_name (pes ! (k mod length pes)))
               (g_node g ! k) = Inr (lws ! k)"
    by blast
  let ?nd = "g_node g ! k" and ?T = "collect_tensors g"
  from lower_node_InrD(3)[OF lw] obtain m d where
    cl: "compute_loop ?T (node_output ?nd) 1 ''fp32'' = Inr (m, d)"
    and c: "lw_compute (lws ! k) =
               \<lparr>n_id = node_name ?nd @ ''_compute'', n_kind = ''compute'',
                n_op = map_onnx_op_to_gwr_op (node_op_type ?nd),
                n_pe = pe_name (pes ! (k mod length pes)),
                n_config = ComputeConfig d m\<rparr>"
    by blast
  from compute_loop_char[OF cl]
  have m: "m = Max (insert 1 (element_count ?T ` set (non_empty (node_output ?nd))))"
    and d: "d = (if non_empty (node_output ?nd) = [] then ''fp32''
                 else dtype_name (resolved_dtype ?T (last (non_empty (node_output ?nd)))))"
    by (simp_all add: Max_insert_one dtype_to_string_name)
  have k: "k < length lws" using assms(2) len by simp
  hence "lws ! k \<in> set lws" by simp
  hence mem: "lw_compute (lws ! k) \<in> set (tt_nodes (flatten_timetable lws))"
    by (auto simp: flatten_timetable_def lowered_nodes_def)
  show ?thesis
    using k mem by (simp add: c m d map_onnx_op_to_gwr_op_def)
qed

theorem compute_record_witness:
  "lower_graph decimal_int mm_graph default_sram_platform = Inr mm_lowered
   \<and> non_empty (node_output (g_node mm_graph ! 0)) = [''p'', ''q'']
   \<and> element_count (collect_tensors mm_graph) ''p'' = 6
   \<and> element_count (collect_tensors mm_graph) ''q'' = 5
   \<and> resolved_dtype (collect_tensors mm_graph) ''q'' = INT64
   \<and> n_id (lw_compute (hd mm_lowered)) = ''mm0_compute''
   \<and> n_config (lw_compute (hd mm_lowered)) = ComputeConfig ''int64'' 6
   \<and> n_op (lw_compute (hd mm_lowered)) = ''mul''"
proof -
  have l: "lower_graph decimal_int mm_graph default_sram_platform = Inr mm_lowered"
    by code_simp
  have k: "0 < length (g_node mm_graph)" by (simp add: mm_graph_def)
  have e: "non_empty (node_output (g_node mm_graph ! 0)) = [''p'', ''q'']"
    by (simp add: mm_graph_def non_empty_def)
  have t: "element_count (collect_tensors mm_graph) ''p'' = 6"
    "element_count (collect_tensors mm_graph) ''q'' = 5"
    "resolved_dtype (collect_tensors mm_graph) ''q'' = INT64"
    by code_simp+
  have n: "node_op_type (g_node mm_graph ! 0) = ''MatMul''"
    "node_name (g_node mm_graph ! 0) = ''mm0''"
    by (simp_all add: mm_graph_def)
  have h: "mm_lowered ! 0 = hd mm_lowered" by (simp add: mm_lowered_def)
  have s: "dtype_name INT64 = ''int64''" by (simp add: dtype_name_def dtype_codes)
  from compute_record[OF l k] l e t show ?thesis
    by (simp add: n h s op_map_def)
qed

section \<open>Round-robin assignment of operations to elements\<close>

lemma mod_shift_zero:
  assumes "i < (K::nat)"
  shows "((G + (K - i)) mod K = 0) = (G mod K = i)"
proof
  assume "G mod K = i"
  hence "(G + (K - i)) mod K = (i + (K - i)) mod K"
    by (metis mod_add_left_eq)
  thus "(G + (K - i)) mod K = 0" using assms by simp
next
  assume z: "(G + (K - i)) mod K = 0"
  define r where "r = G mod K"
  have r: "r < K" using assms by (simp add: r_def)
  have "(r + (K - i)) mod K = 0" using z unfolding r_def by (simp add: mod_add_left_eq)
  then obtain q where q: "r + (K - i) = q * K" by (auto simp: mod_eq_0_iff_dvd dvd_def mult.commute)
  have "0 < r + (K - i)" "r + (K - i) < 2 * K" using r assms by simp_all
  with q have "0 < q * K" "q * K < 2 * K" by simp_all
  hence "q = 1" by (cases q) (auto simp: )
  with q have "r + (K - i) = K" by simp
  thus "G mod K = i" using assms unfolding r_def by simp
qed

lemma round_robin_count:
  assumes "i < (K::nat)"
  shows "length (filter (\<lambda>k. k mod K = i) [0..<G]) = (G + (K - 1 - i)) div K"
proof (induction G)
  case 0
  have "K - 1 - i < K" using assms by simp
  thus ?case by simp
next
  case (Suc G)
  define m where "m = G + (K - 1 - i)"
  have s: "Suc m = G + (K - i)" using assms by (simp add: m_def)
  have "Suc G + (K - 1 - i) = Suc m" by (simp add: m_def)
  hence "(Suc G + (K - 1 - i)) div K = (if Suc m mod K = 0 then Suc (m div K) else m div K)"
    by (simp only: div_Suc)
  also have "\<dots> = (if G mod K = i then Suc (m div K) else m div K)"
    unfolding s using mod_shift_zero[OF assms, of G] by simp
  finally show ?case using Suc.IH by (simp add: m_def)
qed

lemma round_robin_ceiling:
  assumes "i < (K::nat)"
  shows "int ((G + (K - 1 - i)) div K) = \<lceil>(real G - real i) / real K\<rceil>"
proof -
  have K: "1 \<le> int K" using assms by simp
  have "int ((G + (K - 1 - i)) div K) = (int G + int (K - 1 - i)) div int K"
    by (simp add: zdiv_int)
  also have "int (K - 1 - i) = int K - 1 - int i" using assms by simp
  also have "(int G + (int K - 1 - int i)) div int K = ((int G - int i) + int K - 1) div int K"
    by (simp add: algebra_simps)
  also have "\<dots> = \<lceil>real_of_int (int G - int i) / real_of_int (int K)\<rceil>"
    using K by (rule ceil_div)
  finally show ?thesis by simp
qed

lemma split_memory_op_fields:
  "split_memory_op b t p a z sram = Inr ops \<Longrightarrow>
   \<forall>n \<in> set ops. n_pe n = p \<and> n_op n = t \<and> n_kind n = ''memory''"
  by (auto simp: split_memory_op_def chunk_op_def Let_def split: if_splits)

lemma emit_memory_ops_fields:
  "emit_memory_ops nm t p sram T A i names = Inr groups \<Longrightarrow>
   \<forall>n \<in> set (concat groups). n_pe n = p \<and> n_op n = t \<and> n_kind n = ''memory''"
proof (induction names arbitrary: i groups)
  case Nil
  then show ?case by simp
next
  case (Cons x xs)
  show ?case
  proof (cases "x = []")
    case True
    with Cons show ?thesis by simp
  next
    case False
    with Cons.prems obtain a s d z ops others where
      o: "split_memory_op (nm @ ''_'' @ t @ ''_'' @ str_nat i) t p a z sram = Inr ops"
      and r: "emit_memory_ops nm t p sram T A (i + 1) xs = Inr others"
      and g: "groups = ops # others"
      by (auto simp: Let_def split: option.splits sum.splits)
    from split_memory_op_fields[OF o] Cons.IH[OF r] show ?thesis by (auto simp: g)
  qed
qed

lemma lowered_nodes_pe:
  assumes "lower_node py T A pes p nd = Inr lw"
  shows "\<forall>n \<in> set (lowered_nodes lw). n_pe n = p"
proof -
  from lower_node_InrD(3)[OF assms] have "n_pe (lw_compute lw) = p" by auto
  with emit_memory_ops_fields[OF lower_node_InrD(1)[OF assms]]
       emit_memory_ops_fields[OF lower_node_InrD(2)[OF assms]]
  show ?thesis unfolding lowered_nodes_def by auto
qed

lemma length_filter_nth:
  "length (filter P xs) = length (filter (\<lambda>k. P (xs ! k)) [0..<length xs])"
proof -
  have "filter P xs = filter P (map (nth xs) [0..<length xs])" by (simp add: map_nth)
  also have "\<dots> = map (nth xs) (filter (\<lambda>k. P (xs ! k)) [0..<length xs])"
    by (simp add: filter_map comp_def)
  finally show ?thesis by (metis length_map)
qed

text \<open>
  Claim C7. When the conversion of a graph with \<open>G\<close> operations succeeds on a platform
  with \<open>K\<close> processing elements, \<open>K \<ge> 1\<close>, and operation \<open>k\<close> (counted from 0) runs on
  element \<open>k mod K\<close>: the cursor starts at element 0 and moves on by one, cyclically, with
  every operation. Element \<open>i < K\<close> so gets \<open>\<lceil>(G - i) / K\<rceil>\<close> operations; where the
  elements' names are distinct, that is the number of compute records that carry the
  name of element \<open>i\<close>.
\<close>

theorem round_robin_assignment:
  assumes "lower_graph py g pc = Inr lws" and "pc_processing_elements pc = Some pes"
  shows "1 \<le> length pes \<and> length lws = length (g_node g)
    \<and> (\<forall>k < length lws. \<forall>n \<in> set (lowered_nodes (lws ! k)).
          n_pe n = pe_name (pes ! (k mod length pes)))
    \<and> (\<forall>i < length pes.
          int (length (filter (\<lambda>k. k mod length pes = i) [0..<length (g_node g)]))
            = \<lceil>(real (length (g_node g)) - real i) / real (length pes)\<rceil>)
    \<and> (distinct (map pe_name pes) \<longrightarrow>
         (\<forall>i < length pes.
            int (length (filter (\<lambda>lw. n_pe (lw_compute lw) = pe_name (pes ! i)) lws))
              = \<lceil>(real (length (g_node g)) - real i) / real (length pes)\<rceil>))"
proof -
  let ?K = "length pes" and ?G = "length (g_node g)"
  from lower_graph_InrD[OF assms(1)] assms(2) obtain addrs where
    ne: "pes \<noteq> []" and len: "length lws = ?G"
    and lw: "\<And>k. k < ?G \<Longrightarrow>
               lower_node py (collect_tensors g) addrs pes (pe_name (pes ! (k mod ?K)))
                 (g_node g ! k) = Inr (lws ! k)"
    by auto
  have K: "1 \<le> ?K" using ne by (cases pes) simp_all
  have pe: "\<forall>n \<in> set (lowered_nodes (lws ! k)). n_pe n = pe_name (pes ! (k mod ?K))"
    if "k < length lws" for k
    using lowered_nodes_pe[OF lw[of k]] that len by simp
  have cnt: "int (length (filter (\<lambda>k. k mod ?K = i) [0..<?G]))
            = \<lceil>(real ?G - real i) / real ?K\<rceil>" if "i < ?K" for i
    using round_robin_count[OF that, of ?G] round_robin_ceiling[OF that, of ?G] by simp
  have named: "int (length (filter (\<lambda>lw. n_pe (lw_compute lw) = pe_name (pes ! i)) lws))
              = \<lceil>(real ?G - real i) / real ?K\<rceil>"
    if d: "distinct (map pe_name pes)" and i: "i < ?K" for i
  proof -
    have "(n_pe (lw_compute (lws ! k)) = pe_name (pes ! i)) = (k mod ?K = i)"
      if k: "k < ?G" for k
    proof -
      have m: "k mod ?K < ?K" using ne by simp
      have "lw_compute (lws ! k) \<in> set (lowered_nodes (lws ! k))"
        by (simp add: lowered_nodes_def)
      with pe[of k] k len have "n_pe (lw_compute (lws ! k)) = pe_name (pes ! (k mod ?K))"
        by simp
      moreover have "(map pe_name pes ! (k mod ?K) = map pe_name pes ! i) = (k mod ?K = i)"
        using d m i nth_eq_iff_index_eq[of "map pe_name pes" "k mod ?K" i] by simp
      ultimately show ?thesis using m i by simp
    qed
    hence "filter (\<lambda>k. n_pe (lw_compute (lws ! k)) = pe_name (pes ! i)) [0..<?G]
            = filter (\<lambda>k. k mod ?K = i) [0..<?G]"
      by (intro filter_cong) simp_all
    with length_filter_nth[of "\<lambda>lw. n_pe (lw_compute lw) = pe_name (pes ! i)" lws] len
    have "length (filter (\<lambda>lw. n_pe (lw_compute lw) = pe_name (pes ! i)) lws)
            = length (filter (\<lambda>k. k mod ?K = i) [0..<?G])" by simp
    with cnt[OF i] show ?thesis by simp
  qed
  from K len pe cnt named show ?thesis by blast
qed

theorem round_robin_assignment_witness:
  "lower_graph decimal_int rr_graph rr_platform = Inr rr_lowered
   \<and> length (filter (\<lambda>lw. n_pe (lw_compute lw) = ''pe0'') rr_lowered) = 2
   \<and> int (length (filter (\<lambda>lw. n_pe (lw_compute lw) = ''pe0'') rr_lowered))
       = \<lceil>(real 3 - real 0) / real 2\<rceil>
   \<and> int (length (filter (\<lambda>lw. n_pe (lw_compute lw) = ''pe1'') rr_lowered))
       = \<lceil>(real 3 - real 1) / real 2\<rceil>"
proof -
  have l: "lower_graph decimal_int rr_graph rr_platform = Inr rr_lowered" by code_simp
  have p: "pc_processing_elements rr_platform = Some rr_pes"
    by (simp add: rr_platform_def)
  have d: "distinct (map pe_name rr_pes)" by (simp add: rr_pes_def)
  have n: "length rr_pes = 2" "length (g_node rr_graph) = 3"
    "pe_name (rr_pes ! 0) = ''pe0''" "pe_name (rr_pes ! Suc 0) = ''pe1''"
    by (simp_all add: rr_pes_def rr_graph_def)
  from round_robin_assignment[OF l p] d
  have a: "\<forall>i < length rr_pes.
            int (length (filter (\<lambda>lw. n_pe (lw_compute lw) = pe_name (rr_pes ! i)) rr_lowered))
              = \<lceil>(real (length (g_node rr_graph)) - real i) / real (length rr_pes)\<rceil>"
    by blast
  from a[rule_format, of 0] a[rule_format, of 1]
  have "int (length (filter (\<lambda>lw. n_pe (lw_compute lw) = ''pe0'') rr_lowered))
       = \<lceil>(real 3 - real 0) / real 2\<rceil>"
   and "int (length (filter (\<lambda>lw. n_pe (lw_compute lw) = ''pe1'') rr_lowered))
       = \<lceil>(real 3 - real 1) / real 2\<rceil>"
    by (simp_all add: n)
  moreover have "length (filter (\<lambda>lw. n_pe (lw_compute lw) = ''pe0'') rr_lowered) = 2"
    by (simp add: rr_lowered_def compute_only_def)
  ultimately show ?thesis using l by simp
qed

section \<open>Positions in identifiers\<close>

lemma emit_memory_ops_slots:
  "emit_memory_ops nm t p sram T A i names = Inr groups \<Longrightarrow>
   list_all2 (slot_group nm t) (filter (\<lambda>slot. snd slot \<noteq> []) (enumerate i names)) groups"
proof (induction names arbitrary: i groups)
  case Nil
  then show ?case by simp
next
  case (Cons x xs)
  show ?case
  proof (cases "x = []")
    case True
    with Cons.prems have "emit_memory_ops nm t p sram T A (Suc i) xs = Inr groups" by simp
    from Cons.IH[OF this] True show ?thesis by simp
  next
    case False
    with Cons.prems obtain a s d z ops others where
      o: "split_memory_op (nm @ ''_'' @ t @ ''_'' @ str_nat i) t p a z sram = Inr ops"
      and r: "emit_memory_ops nm t p sram T A (Suc i) xs = Inr others"
      and g: "groups = ops # others"
      by (auto simp: Let_def split: option.splits sum.splits)
    from o have "slot_group nm t (i, x) ops"
      unfolding slot_group_def slot_id_def by auto
    with Cons.IH[OF r] False show ?thesis by (simp add: g)
  qed
qed

lemma slot_group_ids:
  assumes "slot_group nm t slot ops" and "n \<in> set ops"
  shows "n_id n = slot_id nm t (fst slot)
         \<or> (\<exists>c. n_id n = slot_id nm t (fst slot) @ ''_chunk_'' @ str_nat c)"
proof -
  from assms(1) obtain pe addr z sram where
    "split_memory_op (slot_id nm t (fst slot)) t pe addr z sram = Inr ops"
    unfolding slot_group_def by blast
  with assms(2) obtain c where
    "n = chunk_op (slot_id nm t (fst slot)) t pe addr z sram ((z + sram - 1) div sram) c"
    by (auto simp: split_memory_op_def Let_def split: if_splits)
  thus ?thesis by (cases "(z + sram - 1) div sram = 1") (auto simp: chunk_op_def Let_def)
qed

text \<open>
  Claim C10. The records of an operation's loads come in groups, one group for every
  non-empty name of the input list, in the list's order; the group of the name at
  position \<open>i\<close> of the full list (empty slots counted) is the chunking of a transfer with
  base identifier \<open><op>_load_<i>\<close>, so every record of it is named \<open><op>_load_<i>\<close> or
  \<open><op>_load_<i>_chunk_<c>\<close>. The same holds for the stores and the output list, with
  \<open><op>_store_<i>\<close>. Position \<open>i\<close> is not the rank among the non-empty names: an empty
  slot 0 followed by a tensor in slot 1 gives \<open><op>_load_1\<close> and no \<open><op>_load_0\<close>.
\<close>

theorem slot_index_in_ids:
  assumes "lower_graph py g pc = Inr lws" and "k < length (g_node g)"
  shows "list_all2 (slot_group (node_name (g_node g ! k)) ''load'')
           (used_slots (node_input (g_node g ! k))) (lw_loads (lws ! k))
    \<and> list_all2 (slot_group (node_name (g_node g ! k)) ''store'')
           (used_slots (node_output (g_node g ! k))) (lw_stores (lws ! k))
    \<and> (\<forall>j < length (lw_loads (lws ! k)). \<forall>n \<in> set (lw_loads (lws ! k) ! j).
          n_id n = node_name (g_node g ! k) @ ''_load_'' @
                     str_nat (fst (used_slots (node_input (g_node g ! k)) ! j))
          \<or> (\<exists>c. n_id n = node_name (g_node g ! k) @ ''_load_'' @
                     str_nat (fst (used_slots (node_input (g_node g ! k)) ! j)) @
                     ''_chunk_'' @ str_nat c))
    \<and> (\<forall>j < length (lw_stores (lws ! k)). \<forall>n \<in> set (lw_stores (lws ! k) ! j).
          n_id n = node_name (g_node g ! k) @ ''_store_'' @
                     str_nat (fst (used_slots (node_output (g_node g ! k)) ! j))
          \<or> (\<exists>c. n_id n = node_name (g_node g ! k) @ ''_store_'' @
                     str_nat (fst (used_slots (node_output (g_node g ! k)) ! j)) @
                     ''_chunk_'' @ str_nat c))"
proof -
  from lower_graph_InrD[OF assms(1)] assms(2) obtain addrs pes where
    lw: "lower_node py (collect_tensors g) addrs pes (pe_name (pes ! (k mod length pes)))
               (g_node g ! k) = Inr (lws ! k)"
    by blast
  let ?nd = "g_node g ! k"
  have l: "list_all2 (slot_group (node_name ?nd) ''load'')
           (used_slots (node_input ?nd)) (lw_loads (lws ! k))"
    unfolding used_slots_def
    using lower_node_InrD(1)[OF lw] by (rule emit_memory_ops_slots)
  have s: "list_all2 (slot_group (node_name ?nd) ''store'')
           (used_slots (node_output ?nd)) (lw_stores (lws ! k))"
    unfolding used_slots_def
    using lower_node_InrD(2)[OF lw] by (rule emit_memory_ops_slots)
  have li: "n_id n = node_name ?nd @ ''_load_'' @ str_nat (fst (used_slots (node_input ?nd) ! j))
          \<or> (\<exists>c. n_id n = node_name ?nd @ ''_load_'' @
                     str_nat (fst (used_slots (node_input ?nd) ! j)) @ ''_chunk_'' @ str_nat c)"
    if "j < length (lw_loads (lws ! k))" and "n \<in> set (lw_loads (lws ! k) ! j)" for j n
    using slot_group_ids[OF list_all2_nthD2[OF l that(1)] that(2)]
    by (simp add: slot_id_def)
  have si: "n_id n = node_name ?nd @ ''_store_'' @ str_nat (fst (used_slots (node_output ?nd) ! j))
          \<or> (\<exists>c. n_id n = node_name ?nd @ ''_store_'' @
                     str_nat (fst (used_slots (node_output ?nd) ! j)) @ ''_chunk_'' @ str_nat c)"
    if "j < length (lw_stores (lws ! k))" and "n \<in> set (lw_stores (lws ! k) ! j)" for j n
    using slot_group_ids[OF list_all2_nthD2[OF s that(1)] that(2)]
    by (simp add: slot_id_def)
  from l s li si show ?thesis by blast
qed

theorem slot_index_in_ids_witness:
  "\<exists>lws. lower_graph decimal_int ex_graph default_sram_platform = Inr lws
     \<and> node_input (g_node ex_graph ! 0) = ['''', ''x'']
     \<and> used_slots (node_input (g_node ex_graph ! 0)) = [(1, ''x'')]
     \<and> list_all2 (slot_group ''add0'' ''load'') [(1, ''x'')] (lw_loads (lws ! 0))
     \<and> map n_id (concat (map lowered_nodes lws)) = [''add0_load_1'', ''add0_compute'', ''add0_store_0'']"
proof -
  define lws where "lws =
    [\<lparr>lw_loads =
        [[\<lparr>n_id = ''add0_load_1'', n_kind = ''memory'', n_op = ''load'',
           n_pe = ''pe0'', n_config = MemoryConfig 4096 16\<rparr>]],
      lw_compute =
        \<lparr>n_id = ''add0_compute'', n_kind = ''compute'', n_op = ''add'',
         n_pe = ''pe0'', n_config = ComputeConfig ''fp32'' 4\<rparr>,
      lw_stores =
        [[\<lparr>n_id = ''add0_store_0'', n_kind = ''memory'', n_op = ''store'',
           n_pe = ''pe0'', n_config = MemoryConfig 4160 16\<rparr>]],
      lw_edges =
        [\<lparr>e_from = ''add0_load_1'', e_to = ''add0_compute'', e_kind = ''data''\<rparr>,
         \<lparr>e_from = ''add0_compute'', e_to = ''add0_store_0'', e_kind = ''data''\<rparr>]\<rparr>]"
  have l: "lower_graph decimal_int ex_graph default_sram_platform = Inr lws"
    unfolding lws_def by code_simp
  have ids: "map n_id (concat (map lowered_nodes lws)) = [''add0_load_1'', ''add0_compute'', ''add0_store_0'']"
    by (simp add: lws_def lowered_nodes_def)
  have k: "0 < length (g_node ex_graph)" by (simp add: ex_graph_def)
  have i: "node_input (g_node ex_graph ! 0) = ['''', ''x'']" "node_name (g_node ex_graph ! 0) = ''add0''"
    by (simp_all add: ex_graph_def)
  have u: "used_slots ['''', ''x''] = [(1, ''x'')]" by (simp add: used_slots_def enumerate_eq_zip upt_rec)
  from slot_index_in_ids[OF l k]
  have "list_all2 (slot_group ''add0'' ''load'') [(1, ''x'')] (lw_loads (lws ! 0))"
    by (simp add: i u)
  with l ids i u show ?thesis by auto
qed

section \<open>Declared metadata and initializers\<close>

text \<open>
  Claim C1 at the tensor \<^verbatim>\<open>w\<close> of \<open>shadow_graph\<close>. The first loop of the resolver takes
  shape \<^verbatim>\<open>[2, 3]\<close> and type FLOAT from the declared type, 24 bytes; the second loop then
  replaces the record by the initializer's, so the table ends with shape \<^verbatim>\<open>[4]\<close>, type
  INT64 and 32 bytes for \<^verbatim>\<open>w\<close>.
\<close>

theorem initializer_replaces_declared:
  "declared_info (initializer_map (g_initializer shadow_graph)) (hd (g_value_info shadow_graph))
     = (Some [Some 2, Some 3], FLOAT, 24)
   \<and> collect_tensors shadow_graph = [(''w'', Some [Some 4], INT64, 32)]"
  by code_simp

section \<open>The device memory allocator\<close>

lemma aligned_size_props:
  "64 dvd aligned_size z" "z \<le> aligned_size z" "aligned_size z < z + 64"
proof -
  show "64 dvd aligned_size z" by (simp add: aligned_size_def)
  have "(z + 63) div 64 * 64 = z + 63 - (z + 63) mod 64" by (simp add: minus_mod_eq_div_mult)
  moreover have "0 \<le> (z + 63) mod 64" "(z + 63) mod 64 < 64" by simp_all
  ultimately show "z \<le> aligned_size z" "aligned_size z < z + 64"
    unfolding aligned_size_def by linarith+
qed

lemma layout_loop_Cons:
  assumes "layout_loop dl ((n, (s, d, z)) # ts) idx da ta = Inr (addrs, pls)"
  shows "\<exists>a pls'. idx < length dl \<and> map_of da (dl ! idx) = Some a
     \<and> layout_loop dl ts ((idx + 1) mod length dl)
          (AList.update (dl ! idx) (a + aligned_size z) da) (AList.update n a ta) = Inr (addrs, pls')
     \<and> pls = \<lparr>pl_tensor = n, pl_device = dl ! idx, pl_addr = a, pl_size = z\<rparr> # pls'"
  using assms by (auto simp: Let_def split: if_splits option.splits sum.splits)

lemma layout_loop_tensors:
  "layout_loop dl ts idx da ta = Inr (addrs, pls) \<Longrightarrow>
   map (\<lambda>p. (pl_tensor p, pl_size p)) pls = map (\<lambda>x. (fst x, tensor_size x)) ts"
proof (induction ts arbitrary: idx da ta pls)
  case Nil
  then show ?case by simp
next
  case (Cons t ts)
  obtain n s d z where t: "t = (n, (s, d, z))" by (cases t) auto
  from layout_loop_Cons[OF Cons.prems[unfolded t]] obtain a pls' where
    r: "layout_loop dl ts ((idx + 1) mod length dl)
          (AList.update (dl ! idx) (a + aligned_size z) da) (AList.update n a ta) = Inr (addrs, pls')"
    and p: "pls = \<lparr>pl_tensor = n, pl_device = dl ! idx, pl_addr = a, pl_size = z\<rparr> # pls'"
    by blast
  from Cons.IH[OF r] show ?case by (simp add: p t tensor_size_def)
qed

lemma layout_loop_devices:
  "layout_loop dl ts idx da ta = Inr (addrs, pls) \<Longrightarrow> k < length pls \<Longrightarrow>
   pl_device (pls ! k) = dl ! ((idx + k) mod length dl)"
proof (induction ts arbitrary: idx da ta pls k)
  case Nil
  then show ?case by simp
next
  case (Cons t ts)
  obtain n s d z where t: "t = (n, (s, d, z))" by (cases t) auto
  from layout_loop_Cons[OF Cons.prems(1)[unfolded t]] obtain a pls' where
    i: "idx < length dl"
    and r: "layout_loop dl ts ((idx + 1) mod length dl)
          (AList.update (dl ! idx) (a + aligned_size z) da) (AList.update n a ta) = Inr (addrs, pls')"
    and p: "pls = \<lparr>pl_tensor = n, pl_device = dl ! idx, pl_addr = a, pl_size = z\<rparr> # pls'"
    by blast
  show ?case
  proof (cases k)
    case 0
    with i show ?thesis by (simp add: p)
  next
    case (Suc j)
    with Cons.prems(2) have j: "j < length pls'" by (simp add: p)
    have "(Suc idx mod length dl + j) mod length dl = Suc (idx + j) mod length dl"
      by (simp add: mod_add_left_eq)
    with Cons.IH[OF r j] show ?thesis by (simp add: p Suc)
  qed
qed

lemma layout_loop_chained:
  "layout_loop dl ts idx da ta = Inr (addrs, pls) \<Longrightarrow> map_of da dev = Some c \<Longrightarrow>
   chained c (on_device dev pls)"
proof (induction ts arbitrary: idx da ta pls c)
  case Nil
  then show ?case by (simp add: on_device_def)
next
  case (Cons t ts)
  obtain n s d z where t: "t = (n, (s, d, z))" by (cases t) auto
  from layout_loop_Cons[OF Cons.prems(1)[unfolded t]] obtain a pls' where
    a: "map_of da (dl ! idx) = Some a"
    and r: "layout_loop dl ts ((idx + 1) mod length dl)
          (AList.update (dl ! idx) (a + aligned_size z) da) (AList.update n a ta) = Inr (addrs, pls')"
    and p: "pls = \<lparr>pl_tensor = n, pl_device = dl ! idx, pl_addr = a, pl_size = z\<rparr> # pls'"
    by blast
  show ?case
  proof (cases "dl ! idx = dev")
    case True
    with a Cons.prems(2) have ac: "a = c" by simp
    have "map_of (AList.update (dl ! idx) (a + aligned_size z) da) dev = Some (c + aligned_size z)"
      using True ac by (simp add: update_conv')
    from Cons.IH[OF r this] True ac show ?thesis by (simp add: p on_device_def)
  next
    case False
    hence "map_of (AList.update (dl ! idx) (a + aligned_size z) da) dev = Some c"
      using Cons.prems(2) by (simp add: update_conv')
    from Cons.IH[OF r this] False show ?thesis by (simp add: p on_device_def)
  qed
qed

lemma layout_loop_untouched:
  "layout_loop dl ts idx da ta = Inr (addrs, pls) \<Longrightarrow> n \<notin> fst ` set ts \<Longrightarrow>
   map_of addrs n = map_of ta n"
proof (induction ts arbitrary: idx da ta pls)
  case Nil
  then show ?case by simp
next
  case (Cons t ts)
  obtain m s d z where t: "t = (m, (s, d, z))" by (cases t) auto
  from layout_loop_Cons[OF Cons.prems(1)[unfolded t]] obtain a pls' where
    r: "layout_loop dl ts ((idx + 1) mod length dl)
          (AList.update (dl ! idx) (a + aligned_size z) da) (AList.update m a ta) = Inr (addrs, pls')"
    by blast
  from Cons.prems(2) have "n \<notin> fst ` set ts" "n \<noteq> m" by (auto simp: t)
  with Cons.IH[OF r] show ?case by (simp add: update_conv')
qed

lemma layout_loop_addresses:
  "layout_loop dl ts idx da ta = Inr (addrs, pls) \<Longrightarrow> distinct (map fst ts) \<Longrightarrow>
   p \<in> set pls \<Longrightarrow> map_of addrs (pl_tensor p) = Some (pl_addr p)"
proof (induction ts arbitrary: idx da ta pls)
  case Nil
  then show ?case by simp
next
  case (Cons t ts)
  obtain n s d z where t: "t = (n, (s, d, z))" by (cases t) auto
  from layout_loop_Cons[OF Cons.prems(1)[unfolded t]] obtain a pls' where
    r: "layout_loop dl ts ((idx + 1) mod length dl)
          (AList.update (dl ! idx) (a + aligned_size z) da) (AList.update n a ta) = Inr (addrs, pls')"
    and pl: "pls = \<lparr>pl_tensor = n, pl_device = dl ! idx, pl_addr = a, pl_size = z\<rparr> # pls'"
    by blast
  from Cons.prems(2) have d: "distinct (map fst ts)" and nn: "n \<notin> fst ` set ts"
    by (auto simp: t)
  show ?case
  proof (cases "p \<in> set pls'")
    case True
    from Cons.IH[OF r d True] show ?thesis .
  next
    case False
    with Cons.prems(3) have "p = \<lparr>pl_tensor = n, pl_device = dl ! idx, pl_addr = a, pl_size = z\<rparr>"
      by (simp add: pl)
    with layout_loop_untouched[OF r nn] show ?thesis by (simp add: update_conv')
  qed
qed

lemma chained_step:
  "chained c seq \<Longrightarrow> Suc i < length seq \<Longrightarrow>
   pl_addr (seq ! Suc i) = pl_addr (seq ! i) + aligned_size (pl_size (seq ! i))"
proof (induction seq arbitrary: c i)
  case Nil
  then show ?case by simp
next
  case (Cons p ps)
  show ?case
  proof (cases i)
    case 0
    with Cons.prems show ?thesis by (cases ps) simp_all
  next
    case (Suc j)
    with Cons.prems Cons.IH[of "c + aligned_size (pl_size p)" j] show ?thesis by simp
  qed
qed

lemma chained_hd: "chained c seq \<Longrightarrow> seq \<noteq> [] \<Longrightarrow> pl_addr (hd seq) = c"
  by (cases seq) simp_all

lemma chained_mono:
  assumes "chained c seq" and "\<forall>p \<in> set seq. 0 \<le> pl_size p" and "i \<le> j" and "j < length seq"
  shows "pl_addr (seq ! i) \<le> pl_addr (seq ! j)"
  using assms(3,4)
proof (induction j)
  case 0
  then show ?case by simp
next
  case (Suc j)
  show ?case
  proof (cases "i = Suc j")
    case True
    then show ?thesis by simp
  next
    case False
    with Suc.prems have ij: "i \<le> j" and j: "j < length seq" by simp_all
    from j assms(2) have "0 \<le> pl_size (seq ! j)" by simp
    with aligned_size_props(2)[of "pl_size (seq ! j)"]
    have "0 \<le> aligned_size (pl_size (seq ! j))" by linarith
    with chained_step[OF assms(1) Suc.prems(2)] Suc.IH[OF ij j] show ?thesis by simp
  qed
qed

lemma chained_disjoint:
  assumes "chained c seq" and "\<forall>p \<in> set seq. 0 \<le> pl_size p" and "i < j" and "j < length seq"
  shows "pl_addr (seq ! i) + pl_size (seq ! i) \<le> pl_addr (seq ! j)"
proof -
  from assms(3,4) have s: "Suc i < length seq" and le: "Suc i \<le> j" by simp_all
  from chained_step[OF assms(1) s] aligned_size_props(2)[of "pl_size (seq ! i)"]
  have "pl_addr (seq ! i) + pl_size (seq ! i) \<le> pl_addr (seq ! Suc i)" by simp
  also have "\<dots> \<le> pl_addr (seq ! j)" using assms(1,2) le assms(4) by (rule chained_mono)
  finally show ?thesis .
qed

lemma sorted_tensors_props:
  "set (sorted_tensors T) = set T"
  "distinct (map fst T) \<Longrightarrow> distinct (map fst (sorted_tensors T))"
  "i \<le> j \<Longrightarrow> j < length T \<Longrightarrow>
     tensor_size (sorted_tensors T ! j) \<le> tensor_size (sorted_tensors T ! i)"
  "filter (\<lambda>x. tensor_size x = z) (sorted_tensors T) = filter (\<lambda>x. tensor_size x = z) T"
proof -
  let ?f = "\<lambda>x::string \<times> tensor_info. - snd (snd (snd x))"
  show "set (sorted_tensors T) = set T" by (simp add: sorted_tensors_def)
  show "distinct (map fst T) \<Longrightarrow> distinct (map fst (sorted_tensors T))"
    by (simp add: distinct_map sorted_tensors_def)
  have s: "sorted (map ?f (sorted_tensors T))"
    unfolding sorted_tensors_def by (rule sorted_sort_key)
  show "tensor_size (sorted_tensors T ! j) \<le> tensor_size (sorted_tensors T ! i)"
    if "i \<le> j" and "j < length T"
  proof -
    have l: "length (sorted_tensors T) = length T" by (simp add: sorted_tensors_def)
    from that l have "j < length (map ?f (sorted_tensors T))" by simp
    from sorted_nth_mono[OF s that(1) this] that l show ?thesis
      by (simp add: tensor_size_def)
  qed
  have "filter (\<lambda>y. ?f y = - z) (sort_key ?f T) = filter (\<lambda>y. ?f y = - z) T"
    by (rule sort_key_stable)
  thus "filter (\<lambda>x. tensor_size x = z) (sorted_tensors T) = filter (\<lambda>x. tensor_size x = z) T"
    by (simp add: sorted_tensors_def tensor_size_def)
qed

text \<open>
  Claim C4. On a platform with at least one memory range, for a tensor table with one
  record per name and no negative size, the allocator returns an address map. Its
  devices are the distinct device names of the ranges. It places the tensors in
  descending order of size, tensors of equal size in the order of the table, and the
  \<open>k\<close>-th placement goes to device \<open>k mod n\<close> of the \<open>n\<close> devices. The address map gives
  every tensor the address of its placement. On every device the first placement is at
  the device's base address, each next address is the previous one plus a gap that is a
  multiple of 64 and at least the size of the tensor placed before, the addresses never
  decrease, and no two placements overlap.
\<close>

theorem layout_round_robin_aligned:
  assumes "pc_memory_maps pc = Some (mm # mms)"
    and "mm_ranges mm = Some (r # rs)"
    and "distinct (map fst tensors)"
    and "\<forall>x \<in> set tensors. 0 \<le> tensor_size x"
  shows "\<exists>addrs pls device_list.
      layout_placements tensors pc = Inr (addrs, pls)
    \<and> layout_tensors tensors pc = Inr addrs
    \<and> device_list = map fst (init_device_addresses (r # rs))
    \<and> distinct device_list \<and> set device_list = range_device ` set (r # rs)
    \<and> map (\<lambda>p. (pl_tensor p, pl_size p)) pls
        = map (\<lambda>x. (fst x, tensor_size x)) (sorted_tensors tensors)
    \<and> (\<forall>i j. i \<le> j \<and> j < length pls \<longrightarrow> pl_size (pls ! j) \<le> pl_size (pls ! i))
    \<and> (\<forall>z. filter (\<lambda>x. tensor_size x = z) (sorted_tensors tensors)
             = filter (\<lambda>x. tensor_size x = z) tensors)
    \<and> (\<forall>k < length pls. pl_device (pls ! k) = device_list ! (k mod length device_list))
    \<and> (\<forall>p \<in> set pls. map_of addrs (pl_tensor p) = Some (pl_addr p))
    \<and> (\<forall>d \<in> set device_list.
          (on_device d pls \<noteq> [] \<longrightarrow>
             map_of (init_device_addresses (r # rs)) d = Some (pl_addr (hd (on_device d pls))))
        \<and> (\<forall>i. Suc i < length (on_device d pls) \<longrightarrow>
               pl_addr (on_device d pls ! i) \<le> pl_addr (on_device d pls ! Suc i)
             \<and> 64 dvd (pl_addr (on_device d pls ! Suc i) - pl_addr (on_device d pls ! i))
             \<and> pl_size (on_device d pls ! i)
                 \<le> pl_addr (on_device d pls ! Suc i) - pl_addr (on_device d pls ! i))
        \<and> (\<forall>i j. i < j \<and> j < length (on_device d pls) \<longrightarrow>
               pl_addr (on_device d pls ! i) + pl_size (on_device d pls ! i)
                 \<le> pl_addr (on_device d pls ! j)))"
proof -
  define da where "da = init_device_addresses (r # rs)"
  define dl where "dl = map fst da"
  let ?ts = "sorted_tensors tensors"
  have dist: "distinct dl" and keys: "set dl = range_device ` set (r # rs)"
    using init_device_addresses_keys[of "r # rs"] by (simp_all add: dl_def da_def)
  from keys have ne: "dl \<noteq> []" by auto
  hence "0 < length dl" by simp
  moreover have "set dl \<subseteq> fst ` set da" by (simp add: dl_def)
  ultimately obtain res where "layout_loop dl ?ts 0 da [] = Inr res"
    using layout_loop_Inr by blast
  then obtain addrs pls where loop: "layout_loop dl ?ts 0 da [] = Inr (addrs, pls)"
    by (cases res) auto
  have lp: "layout_placements tensors pc = Inr (addrs, pls)"
    using assms(1,2) ne loop unfolding dl_def
    by (simp add: layout_placements_def Let_def da_def[symmetric])
  hence lt: "layout_tensors tensors pc = Inr addrs" by (simp add: layout_tensors_def)
  have names: "map (\<lambda>p. (pl_tensor p, pl_size p)) pls = map (\<lambda>x. (fst x, tensor_size x)) ?ts"
    using loop by (rule layout_loop_tensors)
  have len: "length pls = length tensors"
    using map_eq_imp_length_eq[OF names] by (simp add: sorted_tensors_def)
  have size_nth: "pl_size (pls ! k) = tensor_size (?ts ! k)" if "k < length pls" for k
  proof -
    have "map (\<lambda>p. (pl_tensor p, pl_size p)) pls ! k = map (\<lambda>x. (fst x, tensor_size x)) ?ts ! k"
      by (simp only: names)
    with that len show ?thesis by (simp add: sorted_tensors_def)
  qed
  have desc: "pl_size (pls ! j) \<le> pl_size (pls ! i)" if "i \<le> j" and "j < length pls" for i j
    using sorted_tensors_props(3)[of i j tensors] that len by (simp add: size_nth)
  have stable: "filter (\<lambda>x. tensor_size x = z) ?ts = filter (\<lambda>x. tensor_size x = z) tensors" for z
    by (rule sorted_tensors_props(4))
  have rr: "pl_device (pls ! k) = dl ! (k mod length dl)" if "k < length pls" for k
    using layout_loop_devices[OF loop that] by simp
  have addr: "map_of addrs (pl_tensor p) = Some (pl_addr p)" if "p \<in> set pls" for p
    using loop sorted_tensors_props(2)[OF assms(3)] that by (rule layout_loop_addresses)
  have nonneg: "0 \<le> pl_size p" if "p \<in> set pls" for p
  proof -
    from that have "(pl_tensor p, pl_size p) \<in> set (map (\<lambda>p. (pl_tensor p, pl_size p)) pls)"
      by auto
    then obtain x where "x \<in> set ?ts" and "pl_size p = tensor_size x"
      unfolding names by auto
    with assms(4) show ?thesis by (simp add: sorted_tensors_props(1))
  qed
  have dev: "(on_device d pls \<noteq> [] \<longrightarrow>
             map_of da d = Some (pl_addr (hd (on_device d pls))))
        \<and> (\<forall>i. Suc i < length (on_device d pls) \<longrightarrow>
               pl_addr (on_device d pls ! i) \<le> pl_addr (on_device d pls ! Suc i)
             \<and> 64 dvd (pl_addr (on_device d pls ! Suc i) - pl_addr (on_device d pls ! i))
             \<and> pl_size (on_device d pls ! i)
                 \<le> pl_addr (on_device d pls ! Suc i) - pl_addr (on_device d pls ! i))
        \<and> (\<forall>i j. i < j \<and> j < length (on_device d pls) \<longrightarrow>
               pl_addr (on_device d pls ! i) + pl_size (on_device d pls ! i)
                 \<le> pl_addr (on_device d pls ! j))" if d: "d \<in> set dl" for d
  proof -
    let ?seq = "on_device d pls"
    from d have "d \<in> fst ` set da" by (simp add: dl_def)
    then obtain c where c: "map_of da d = Some c"
      by (cases "map_of da d") (simp_all add: map_of_eq_None_iff)
    have ch: "chained c ?seq" using loop c by (rule layout_loop_chained)
    have nn: "\<forall>p \<in> set ?seq. 0 \<le> pl_size p" using nonneg by (simp add: on_device_def)
    have 1: "?seq \<noteq> [] \<longrightarrow> map_of da d = Some (pl_addr (hd ?seq))"
      using chained_hd[OF ch] c by simp
    have 2: "pl_addr (?seq ! i) \<le> pl_addr (?seq ! Suc i)
             \<and> 64 dvd (pl_addr (?seq ! Suc i) - pl_addr (?seq ! i))
             \<and> pl_size (?seq ! i) \<le> pl_addr (?seq ! Suc i) - pl_addr (?seq ! i)"
      if "Suc i < length ?seq" for i
    proof -
      have g: "pl_addr (?seq ! Suc i) - pl_addr (?seq ! i) = aligned_size (pl_size (?seq ! i))"
        using chained_step[OF ch that] by simp
      have "pl_addr (?seq ! i) \<le> pl_addr (?seq ! Suc i)"
        using ch nn _ that by (rule chained_mono) simp
      thus ?thesis unfolding g by (simp add: aligned_size_props)
    qed
    have 3: "pl_addr (?seq ! i) + pl_size (?seq ! i) \<le> pl_addr (?seq ! j)"
      if "i < j \<and> j < length ?seq" for i j
      using ch nn that[THEN conjunct1] that[THEN conjunct2] by (rule chained_disjoint)
    from 1 2 3 show ?thesis by blast
  qed
  show ?thesis
    apply (rule exI[of _ addrs], rule exI[of _ pls], rule exI[of _ dl])
    using lp lt dist keys names desc stable rr addr dev
    unfolding dl_def da_def
    by blast
qed

theorem layout_round_robin_aligned_witness:
  "\<exists>addrs pls.
      layout_placements four_tensors two_device_platform = Inr (addrs, pls)
    \<and> map pl_tensor pls = [''b'', ''c'', ''a'', ''d'']
    \<and> map pl_device pls = [''hbm0'', ''hbm1'', ''hbm0'', ''hbm1'']
    \<and> map pl_addr (on_device ''hbm0'' pls) = [0, 128]
    \<and> pl_addr (on_device ''hbm0'' pls ! 0) + pl_size (on_device ''hbm0'' pls ! 0)
         \<le> pl_addr (on_device ''hbm0'' pls ! 1)"
proof -
  let ?r = "\<lparr>ri_device = Some ''hbm0'', ri_base_address = Some 0\<rparr>"
  let ?rs = "[\<lparr>ri_device = Some ''hbm1'', ri_base_address = Some 1048576\<rparr>,
              \<lparr>ri_device = Some ''hbm0'', ri_base_address = Some 4096\<rparr>]"
  have 1: "pc_memory_maps two_device_platform = Some (\<lparr>mm_ranges = Some (?r # ?rs)\<rparr> # [])"
    by (simp add: two_device_platform_def)
  have 2: "mm_ranges \<lparr>mm_ranges = Some (?r # ?rs)\<rparr> = Some (?r # ?rs)" by simp
  have 3: "distinct (map fst four_tensors)" by (simp add: four_tensors_def)
  have 4: "\<forall>x \<in> set four_tensors. 0 \<le> tensor_size x"
    by (simp add: four_tensors_def tensor_size_def)
  have ev: "layout_placements four_tensors two_device_platform =
      Inr ([(''b'', 0), (''c'', 1048576), (''a'', 128), (''d'', 1048704)],
           [\<lparr>pl_tensor = ''b'', pl_device = ''hbm0'', pl_addr = 0, pl_size = 100\<rparr>,
            \<lparr>pl_tensor = ''c'', pl_device = ''hbm1'', pl_addr = 1048576, pl_size = 100\<rparr>,
            \<lparr>pl_tensor = ''a'', pl_device = ''hbm0'', pl_addr = 128, pl_size = 16\<rparr>,
            \<lparr>pl_tensor = ''d'', pl_device = ''hbm1'', pl_addr = 1048704, pl_size = 1\<rparr>])"
    by code_simp
  have dls: "map fst (init_device_addresses (?r # ?rs)) = [''hbm0'', ''hbm1'']"
    by code_simp
  from layout_round_robin_aligned[OF 1 2 3 4] show ?thesis
  proof (elim exE conjE)
    fix addrs pls device_list
    assume lp: "layout_placements four_tensors two_device_platform = Inr (addrs, pls)"
      and dl: "device_list = map fst (init_device_addresses (?r # ?rs))"
      and dv: "\<forall>d \<in> set device_list.
          (on_device d pls \<noteq> [] \<longrightarrow>
             map_of (init_device_addresses (?r # ?rs)) d = Some (pl_addr (hd (on_device d pls))))
        \<and> (\<forall>i. Suc i < length (on_device d pls) \<longrightarrow>
               pl_addr (on_device d pls ! i) \<le> pl_addr (on_device d pls ! Suc i)
             \<and> 64 dvd (pl_addr (on_device d pls ! Suc i) - pl_addr (on_device d pls ! i))
             \<and> pl_size (on_device d pls ! i)
                 \<le> pl_addr (on_device d pls ! Suc i) - pl_addr (on_device d pls ! i))
        \<and> (\<forall>i j. i < j \<and> j < length (on_device d pls) \<longrightarrow>
               pl_addr (on_device d pls ! i) + pl_size (on_device d pls ! i)
                 \<le> pl_addr (on_device d pls ! j))"
    from lp ev have pls: "pls =
           [\<lparr>pl_tensor = ''b'', pl_device = ''hbm0'', pl_addr = 0, pl_size = 100\<rparr>,
            \<lparr>pl_tensor = ''c'', pl_device = ''hbm1'', pl_addr = 1048576, pl_size = 100\<rparr>,
            \<lparr>pl_tensor = ''a'', pl_device = ''hbm0'', pl_addr = 128, pl_size = 16\<rparr>,
            \<lparr>pl_tensor = ''d'', pl_device = ''hbm1'', pl_addr = 1048704, pl_size = 1\<rparr>]"
      by simp
    have od: "on_device ''hbm0'' pls =
           [\<lparr>pl_tensor = ''b'', pl_device = ''hbm0'', pl_addr = 0, pl_size = 100\<rparr>,
            \<lparr>pl_tensor = ''a'', pl_device = ''hbm0'', pl_addr = 128, pl_size = 16\<rparr>]"
      by (simp add: pls on_device_def)
    have "''hbm0'' \<in> set device_list" unfolding dl dls by simp
    from bspec[OF dv this]
    have "\<forall>i j. i < j \<and> j < length (on_device ''hbm0'' pls) \<longrightarrow>
               pl_addr (on_device ''hbm0'' pls ! i) + pl_size (on_device ''hbm0'' pls ! i)
                 \<le> pl_addr (on_device ''hbm0'' pls ! j)" by (elim conjE)
    from this[rule_format, of 0 1]
    have d: "pl_addr (on_device ''hbm0'' pls ! 0) + pl_size (on_device ''hbm0'' pls ! 0)
         \<le> pl_addr (on_device ''hbm0'' pls ! 1)"
      by (simp add: od)
    have a: "map pl_tensor pls = [''b'', ''c'', ''a'', ''d'']"
      and b: "map pl_device pls = [''hbm0'', ''hbm1'', ''hbm0'', ''hbm1'']"
      by (simp_all add: pls)
    have c: "map pl_addr (on_device ''hbm0'' pls) = [0, 128]" by (simp add: od)
    show ?thesis
      by (rule exI[of _ addrs], rule exI[of _ pls]) (intro conjI lp a b c d)
  qed
qed

section \<open>Identifiers are unique when the names are\<close>

lemma digit_char_props:
  assumes "d < 10"
  shows "is_digit (digit_char d)" and "digit_value (digit_char d) = d"
proof -
  from assms have "d = 0 \<or> d = 1 \<or> d = 2 \<or> d = 3 \<or> d = 4 \<or> d = 5 \<or> d = 6 \<or> d = 7 \<or> d = 8 \<or> d = 9"
    by arith
  thus "is_digit (digit_char d)" and "digit_value (digit_char d) = d"
    by (auto simp: is_digit_def digit_char_def digit_value_def)
qed

lemma str_nat_digits: "str_nat n \<noteq> [] \<and> (\<forall>c \<in> set (str_nat n). is_digit c)"
proof (induction n rule: str_nat.induct)
  case (1 n)
  show ?case
  proof (cases "n < 10")
    case True
    thus ?thesis by (subst (1 2) str_nat.simps) (simp add: digit_char_props)
  next
    case False
    with 1 have "\<forall>c \<in> set (str_nat (n div 10)). is_digit c" by simp
    moreover have "is_digit (digit_char (n mod 10))" by (simp add: digit_char_props)
    ultimately show ?thesis using False by (subst (1 2) str_nat.simps) auto
  qed
qed

lemma nat_of_digits_str_nat: "nat_of_digits (str_nat n) = n"
proof (induction n rule: str_nat.induct)
  case (1 n)
  show ?case
  proof (cases "n < 10")
    case True
    thus ?thesis
      by (subst str_nat.simps) (simp add: nat_of_digits_def digit_char_props)
  next
    case False
    with 1 have "nat_of_digits (str_nat (n div 10)) = n div 10" by simp
    thus ?thesis using False
      by (subst str_nat.simps) (simp add: nat_of_digits_def digit_char_props)
  qed
qed

lemma str_nat_inj: "str_nat a = str_nat b \<Longrightarrow> a = b"
  by (metis nat_of_digits_str_nat)

lemma span_all:
  assumes "\<forall>c \<in> set ds. P c" and "rest = [] \<or> \<not> P (hd rest)"
  shows "takeWhile P (ds @ rest) = ds" and "dropWhile P (ds @ rest) = rest"
proof -
  have t: "takeWhile P rest = []" and r: "dropWhile P rest = rest"
    using assms(2) by (cases rest; simp)+
  show "takeWhile P (ds @ rest) = ds" using assms(1) t by (induction ds) simp_all
  show "dropWhile P (ds @ rest) = rest" using assms(1) r by (induction ds) simp_all
qed

lemma takeWhile_digits:
  assumes "rest = [] \<or> \<not> is_digit (hd rest)"
  shows "takeWhile is_digit (str_nat i @ rest) = str_nat i"
    and "dropWhile is_digit (str_nat i @ rest) = rest"
  using span_all[of "str_nat i" is_digit rest] str_nat_digits[of i] assms by blast+

lemma takeWhile_rev_digits:
  assumes "rest = [] \<or> \<not> is_digit (hd rest)"
  shows "takeWhile is_digit (rev (str_nat i) @ rest) = rev (str_nat i)"
    and "dropWhile is_digit (rev (str_nat i) @ rest) = rest"
  using span_all[of "rev (str_nat i)" is_digit rest] str_nat_digits[of i] assms by simp_all

lemma rev_str_nat_Cons: "\<exists>d ds. rev (str_nat i) = d # ds \<and> is_digit d"
proof -
  from str_nat_digits[of i] have "rev (str_nat i) \<noteq> []" and "\<forall>c \<in> set (rev (str_nat i)). is_digit c"
    by simp_all
  thus ?thesis by (cases "rev (str_nat i)") auto
qed

lemma not_compute_digits:
  "take 8 (rev (str_nat i) @ rest) \<noteq> rev ''_compute''"
proof -
  from rev_str_nat_Cons[of i] obtain d ds where r: "rev (str_nat i) = d # ds" and d: "is_digit d"
    by blast
  have "d \<noteq> CHR ''e''" using d by (auto simp: is_digit_def)
  thus ?thesis by (simp add: r)
qed

lemma memory_tag_length_simps:
  "memory_tag_length (rev ''_load_'' @ r) = 6"
  "memory_tag_length (rev ''_store_'' @ r) = 7"
  by (simp_all add: memory_tag_length_def)

lemma id_suffix_length_compute:
  "id_suffix_length (nm @ ''_compute'') = 8"
  by (simp add: id_suffix_length_def)

lemma id_suffix_length_plain:
  assumes "tag = ''_load_'' \<or> tag = ''_store_''"
  shows "id_suffix_length (nm @ tag @ str_nat i) = length (tag @ str_nat i)"
proof -
  let ?r1 = "rev tag @ rev nm"
  have r: "rev (nm @ tag @ str_nat i) = rev (str_nat i) @ ?r1" by simp
  have u: "?r1 = [] \<or> \<not> is_digit (hd ?r1)"
    using assms by (auto simp: is_digit_def)
  have nc: "take 7 ?r1 \<noteq> rev ''_chunk_''" using assms by auto
  have m: "memory_tag_length ?r1 = length tag"
    using assms memory_tag_length_simps[of "rev nm"] by auto
  show ?thesis
    unfolding id_suffix_length_def r Let_def
    by (simp only: not_compute_digits if_False takeWhile_rev_digits[OF u] nc m length_rev
          length_append add.commute)
qed

lemma id_suffix_length_chunk:
  assumes "tag = ''_load_'' \<or> tag = ''_store_''"
  shows "id_suffix_length (nm @ tag @ str_nat i @ ''_chunk_'' @ str_nat c)
           = length (tag @ str_nat i @ ''_chunk_'' @ str_nat c)"
proof -
  let ?r3 = "rev tag @ rev nm"
  let ?r2 = "rev (str_nat i) @ ?r3"
  let ?r1 = "rev ''_chunk_'' @ ?r2"
  have r: "rev (nm @ tag @ str_nat i @ ''_chunk_'' @ str_nat c) = rev (str_nat c) @ ?r1" by simp
  have u1: "?r1 = [] \<or> \<not> is_digit (hd ?r1)" by (simp add: is_digit_def)
  have u3: "?r3 = [] \<or> \<not> is_digit (hd ?r3)"
    using assms by (auto simp: is_digit_def)
  have c: "take 7 ?r1 = rev ''_chunk_''" by simp
  have d: "drop 7 ?r1 = ?r2" by simp
  have m: "memory_tag_length ?r3 = length tag"
    using assms memory_tag_length_simps[of "rev nm"] by auto
  have "id_suffix_length (nm @ tag @ str_nat i @ ''_chunk_'' @ str_nat c)
          = length (str_nat c) + 7 + length (str_nat i) + length tag"
    unfolding id_suffix_length_def r Let_def
    by (simp only: not_compute_digits if_False takeWhile_rev_digits[OF u1] c d
          takeWhile_rev_digits[OF u3] m length_rev refl if_True)
  thus ?thesis by simp
qed

lemma id_owner_compute: "id_owner (nm @ ''_compute'') = nm"
  by (simp add: id_owner_def id_suffix_length_compute)

lemma id_owner_memory:
  assumes "tag = ''_load_'' \<or> tag = ''_store_''" and "sfx \<in> set (chunk_suffixes n)"
  shows "id_owner (nm @ tag @ str_nat i @ sfx) = nm"
proof (cases "sfx = []")
  case True
  have "id_suffix_length (nm @ tag @ str_nat i) = length (tag @ str_nat i)"
    using assms(1) by (rule id_suffix_length_plain)
  thus ?thesis by (simp add: id_owner_def True)
next
  case False
  with assms(2) obtain c where c: "sfx = ''_chunk_'' @ str_nat c"
    by (auto simp: chunk_suffixes_def split: if_splits)
  have "id_suffix_length (nm @ tag @ str_nat i @ ''_chunk_'' @ str_nat c)
          = length (tag @ str_nat i @ ''_chunk_'' @ str_nat c)"
    using assms(1) by (rule id_suffix_length_chunk)
  thus ?thesis unfolding id_owner_def c by simp
qed

lemma distinct_chunk_suffixes: "distinct (chunk_suffixes n)"
  by (auto simp: chunk_suffixes_def distinct_map inj_on_def dest: str_nat_inj)

lemma chunk_suffix_start:
  "sfx \<in> set (chunk_suffixes n) \<Longrightarrow> sfx = [] \<or> \<not> is_digit (hd sfx)"
  by (auto simp: chunk_suffixes_def is_digit_def split: if_splits)

lemma split_memory_op_ids:
  assumes "split_memory_op base t pe a z sram = Inr ops"
  shows "\<exists>n. map n_id ops = map (\<lambda>sfx. base @ sfx) (chunk_suffixes n)"
proof -
  define k where "k = (z + sram - 1) div sram"
  from assms have ops: "ops = map (chunk_op base t pe a z sram k) [0..<nat k]"
    by (simp add: split_memory_op_def Let_def k_def split: if_splits)
  have "map n_id ops = map (\<lambda>sfx. base @ sfx) (chunk_suffixes (nat k))"
  proof (cases "k = 1")
    case True
    thus ?thesis by (simp add: ops chunk_op_def Let_def chunk_suffixes_def)
  next
    case False
    hence "nat k \<noteq> 1" by auto
    with False show ?thesis
      by (simp add: ops chunk_op_def Let_def chunk_suffixes_def comp_def)
  qed
  thus ?thesis by blast
qed

lemma distinct_concat_tagged:
  assumes "list_all2 R xs yss"
    and "distinct (map h xs)"
    and "\<And>x ys. R x ys \<Longrightarrow> distinct ys \<and> (\<forall>y \<in> set ys. g y = h x)"
  shows "distinct (concat yss) \<and> (\<forall>y \<in> set (concat yss). g y \<in> h ` set xs)"
  using assms(1,2)
proof (induction rule: list_all2_induct)
  case Nil
  show ?case by simp
next
  case (Cons x xs ys yss)
  from Cons.prems have d: "distinct (map h xs)" and nx: "h x \<notin> h ` set xs" by simp_all
  from assms(3)[OF Cons.hyps(1)] have dy: "distinct ys" and gy: "\<forall>y \<in> set ys. g y = h x"
    by simp_all
  from Cons.IH[OF d] have dc: "distinct (concat yss)"
    and gc: "\<forall>y \<in> set (concat yss). g y \<in> h ` set xs" by simp_all
  have "set ys \<inter> set (concat yss) = {}"
  proof (rule ccontr)
    assume "set ys \<inter> set (concat yss) \<noteq> {}"
    then obtain y where "y \<in> set ys" and "y \<in> set (concat yss)" by blast
    with gy gc have "h x \<in> h ` set xs" by metis
    with nx show False by contradiction
  qed
  with dy dc gy gc show ?case by auto
qed

lemma distinct_used_slots: "distinct (map (\<lambda>slot. str_nat (fst slot)) (used_slots names))"
proof -
  have "distinct (map fst (enumerate 0 names))" by simp
  hence "distinct (map fst (used_slots names))"
    unfolding used_slots_def by (rule distinct_map_filter)
  hence "distinct (map str_nat (map fst (used_slots names)))"
    by (simp add: distinct_map inj_on_def str_nat_inj del: map_map)
  thus ?thesis by (simp add: comp_def)
qed

lemma memory_group_ids:
  assumes "list_all2 (slot_group nm t) (used_slots names) groups"
    and "t = ''load'' \<or> t = ''store''"
  shows "distinct (map n_id (concat groups))"
    and "\<forall>n \<in> set (concat groups).
           id_owner (n_id n) = nm \<and> (\<exists>rest. n_id n = nm @ ''_'' @ t @ ''_'' @ rest)"
proof -
  define tag where "tag = ''_'' @ t @ ''_''"
  have tag: "tag = ''_load_'' \<or> tag = ''_store_''" using assms(2) by (auto simp: tag_def)
  define R where "R = (\<lambda>(slot :: nat \<times> string) ids. \<exists>n.
      ids = map (\<lambda>sfx. nm @ tag @ str_nat (fst slot) @ sfx) (chunk_suffixes n))"
  define g where "g = (\<lambda>ident. takeWhile is_digit (drop (length (nm @ tag)) ident))"
  have sid: "slot_id nm t i = nm @ tag @ str_nat i" for i
    by (simp add: slot_id_def tag_def)
  have RI: "R slot (map n_id ops)" if "slot_group nm t slot ops" for slot ops
  proof -
    from that obtain pe a z sram where
      "split_memory_op (slot_id nm t (fst slot)) t pe a z sram = Inr ops"
      unfolding slot_group_def by blast
    from split_memory_op_ids[OF this] show ?thesis
      unfolding R_def sid by simp
  qed
  have l: "list_all2 R (used_slots names) (map (map n_id) groups)"
    using assms(1) by (simp add: list_all2_map2) (erule list_all2_mono, rule RI)
  have RD: "distinct ys \<and> (\<forall>y \<in> set ys. g y = str_nat (fst slot))" if "R slot ys" for slot ys
  proof -
    from that obtain n where
      ys: "ys = map (\<lambda>sfx. nm @ tag @ str_nat (fst slot) @ sfx) (chunk_suffixes n)"
      unfolding R_def by blast
    have "distinct ys" unfolding ys
      by (simp add: distinct_map distinct_chunk_suffixes inj_on_def)
    moreover have "g y = str_nat (fst slot)" if "y \<in> set ys" for y
    proof -
      from that obtain sfx where s: "sfx \<in> set (chunk_suffixes n)"
        and y: "y = (nm @ tag) @ str_nat (fst slot) @ sfx" unfolding ys by auto
      have "drop (length p) (p @ q) = q" for p q :: string by simp
      hence "g y = takeWhile is_digit (str_nat (fst slot) @ sfx)"
        unfolding g_def y by (simp only:)
      thus ?thesis using takeWhile_digits(1)[OF chunk_suffix_start[OF s]] by simp
    qed
    ultimately show ?thesis by blast
  qed
  from distinct_concat_tagged[OF l distinct_used_slots RD]
  have "distinct (concat (map (map n_id) groups))" by blast
  thus "distinct (map n_id (concat groups))" by (simp add: map_concat)
  show "\<forall>n \<in> set (concat groups).
           id_owner (n_id n) = nm \<and> (\<exists>rest. n_id n = nm @ ''_'' @ t @ ''_'' @ rest)"
  proof
    fix n assume "n \<in> set (concat groups)"
    then obtain ops where o: "ops \<in> set groups" and n: "n \<in> set ops" by auto
    from o obtain j where j: "j < length groups" and oj: "ops = groups ! j"
      by (auto simp: in_set_conv_nth)
    from list_all2_nthD2[OF assms(1) j] have "slot_group nm t (used_slots names ! j) ops"
      by (simp add: oj)
    from RI[OF this] obtain k where
      ids: "map n_id ops = map (\<lambda>sfx. nm @ tag @ str_nat (fst (used_slots names ! j)) @ sfx)
              (chunk_suffixes k)"
      unfolding R_def by blast
    from n have "n_id n \<in> set (map n_id ops)" by simp
    then obtain sfx where s: "sfx \<in> set (chunk_suffixes k)"
      and e: "n_id n = nm @ tag @ str_nat (fst (used_slots names ! j)) @ sfx"
      unfolding ids by auto
    have "id_owner (n_id n) = nm" unfolding e using tag s by (rule id_owner_memory)
    moreover have "\<exists>rest. n_id n = nm @ ''_'' @ t @ ''_'' @ rest"
      unfolding e tag_def by simp
    ultimately show "id_owner (n_id n) = nm \<and> (\<exists>rest. n_id n = nm @ ''_'' @ t @ ''_'' @ rest)"
      by blast
  qed
qed

lemma lowered_ids:
  assumes "lower_node py T A pes p nd = Inr lw"
  shows "distinct (map n_id (lowered_nodes lw))
    \<and> (\<forall>n \<in> set (lowered_nodes lw). id_owner (n_id n) = node_name nd)"
proof -
  let ?nm = "node_name nd"
  have l: "list_all2 (slot_group ?nm ''load'') (used_slots (node_input nd)) (lw_loads lw)"
    unfolding used_slots_def
    using lower_node_InrD(1)[OF assms] by (rule emit_memory_ops_slots)
  have s: "list_all2 (slot_group ?nm ''store'') (used_slots (node_output nd)) (lw_stores lw)"
    unfolding used_slots_def
    using lower_node_InrD(2)[OF assms] by (rule emit_memory_ops_slots)
  from lower_node_InrD(3)[OF assms] have c: "n_id (lw_compute lw) = ?nm @ ''_compute''" by auto
  note L = memory_group_ids[OF l, simplified]
  note S = memory_group_ids[OF s, simplified]
  have lf: "\<exists>rest. n_id n = ?nm @ ''_load_'' @ rest" if "n \<in> set (concat (lw_loads lw))" for n
    using L(2) that by auto
  have sf: "\<exists>rest. n_id n = ?nm @ ''_store_'' @ rest" if "n \<in> set (concat (lw_stores lw))" for n
    using S(2) that by auto
  have 1: "n_id (lw_compute lw) \<notin> n_id ` set (concat (lw_loads lw))"
  proof
    assume "n_id (lw_compute lw) \<in> n_id ` set (concat (lw_loads lw))"
    then obtain n where "n \<in> set (concat (lw_loads lw))" and "n_id n = ?nm @ ''_compute''"
      unfolding c by force
    with lf[of n] show False by auto
  qed
  have 2: "n_id (lw_compute lw) \<notin> n_id ` set (concat (lw_stores lw))"
  proof
    assume "n_id (lw_compute lw) \<in> n_id ` set (concat (lw_stores lw))"
    then obtain n where "n \<in> set (concat (lw_stores lw))" and "n_id n = ?nm @ ''_compute''"
      unfolding c by force
    with sf[of n] show False by auto
  qed
  have 3: "n_id ` set (concat (lw_loads lw)) \<inter> n_id ` set (concat (lw_stores lw)) = {}"
  proof (rule ccontr)
    assume "n_id ` set (concat (lw_loads lw)) \<inter> n_id ` set (concat (lw_stores lw)) \<noteq> {}"
    then obtain a b where "a \<in> set (concat (lw_loads lw))" and "b \<in> set (concat (lw_stores lw))"
      and "n_id a = n_id b" by force
    with lf[of a] sf[of b] show False by auto
  qed
  have d: "distinct (map n_id (lowered_nodes lw))"
    unfolding lowered_nodes_def using L(1) S(1) 1 2 3 by (simp add: Int_commute)
  have o: "\<forall>n \<in> set (lowered_nodes lw). id_owner (n_id n) = ?nm"
    unfolding lowered_nodes_def using L(2) S(2) c by (auto simp: id_owner_compute)
  from d o show ?thesis by blast
qed

text \<open>
  Claim C2, as amended. When the names of the graph's operations are pairwise distinct
  and the conversion succeeds, the identifiers of the nodes of the timetable are pairwise
  distinct.
\<close>

theorem distinct_names_distinct_ids:
  assumes "onnx_to_gwr_timetable py g pc = Inr tt"
    and "distinct (map node_name (g_node g))"
  shows "distinct (map n_id (tt_nodes tt))"
proof -
  from assms(1) obtain lws where lg: "lower_graph py g pc = Inr lws" and tt: "tt = flatten_timetable lws"
    by (auto simp: onnx_to_gwr_timetable_def split: sum.splits)
  from lower_graph_InrD[OF lg] obtain addrs pes where
    len: "length lws = length (g_node g)"
    and lw: "\<And>k. k < length (g_node g) \<Longrightarrow>
               lower_node py (collect_tensors g) addrs pes (pe_name (pes ! (k mod length pes)))
                 (g_node g ! k) = Inr (lws ! k)"
    by blast
  define R where "R = (\<lambda>(nd :: onnx_node) ids. distinct ids \<and> (\<forall>y \<in> set ids. id_owner y = node_name nd))"
  have "list_all2 R (g_node g) (map (\<lambda>lw. map n_id (lowered_nodes lw)) lws)"
  proof (rule list_all2_all_nthI)
    show "length (g_node g) = length (map (\<lambda>lw. map n_id (lowered_nodes lw)) lws)"
      by (simp add: len)
  next
    fix k assume k: "k < length (g_node g)"
    from lowered_ids[OF lw[OF k]] k len
    show "R (g_node g ! k) (map (\<lambda>lw. map n_id (lowered_nodes lw)) lws ! k)"
      by (auto simp: R_def)
  qed
  from distinct_concat_tagged[OF this assms(2), of id_owner]
  have "distinct (concat (map (\<lambda>lw. map n_id (lowered_nodes lw)) lws))"
    by (simp add: R_def)
  thus ?thesis by (simp add: tt flatten_timetable_def map_concat comp_def)
qed

theorem distinct_names_distinct_ids_witness:
  "onnx_to_gwr_timetable decimal_int ex_graph ex_platform = Inr (flatten_timetable ex_lowered)
   \<and> distinct (map node_name (g_node ex_graph))
   \<and> distinct (map n_id (tt_nodes (flatten_timetable ex_lowered)))"
proof -
  have "lower_graph decimal_int ex_graph ex_platform = Inr ex_lowered" by code_simp
  hence c: "onnx_to_gwr_timetable decimal_int ex_graph ex_platform = Inr (flatten_timetable ex_lowered)"
    by (simp add: onnx_to_gwr_timetable_def)
  have d: "distinct (map node_name (g_node ex_graph))" by (simp add: ex_graph_def)
  from distinct_names_distinct_ids[OF c d] c d show ?thesis by blast
qed

text \<open>
  Claim C2 as stated fails for two operations of the same name: the conversion succeeds
  and both compute records are called \<open>a_compute\<close>.
\<close>

theorem duplicate_names_counterexample:
  "onnx_to_gwr_timetable decimal_int dup_graph ex_platform = Inr dup_timetable
   \<and> \<not> distinct (map n_id (tt_nodes dup_timetable))"
  by code_simp

section \<open>The edges of the timetable\<close>

text \<open>
  Claim C6, as amended. The edges of the timetable are the edges of its operations, one
  after the other. The edges of an operation all have kind \<open>data\<close>; they are one edge
  from each load chunk of that operation to that operation's compute record, followed by
  one edge from that compute record to each store chunk of that operation. And when the
  names of the operations are pairwise distinct, no edge of the timetable joins a record
  of one operation to a record of another: whenever the source of an edge is the
  identifier of a record of operation \<open>k\<close> and its target the identifier of a record of
  operation \<open>k'\<close>, then \<open>k = k'\<close>.
\<close>

theorem edges_within_operation:
  assumes "onnx_to_gwr_timetable py g pc = Inr tt"
  shows "\<exists>lws. lower_graph py g pc = Inr lws
    \<and> length lws = length (g_node g)
    \<and> tt_nodes tt = concat (map lowered_nodes lws)
    \<and> tt_edges tt = concat (map lw_edges lws)
    \<and> (\<forall>k < length lws.
          (\<exists>addrs pes p.
             lower_node py (collect_tensors g) addrs pes p (g_node g ! k) = Inr (lws ! k))
          \<and> lw_edges (lws ! k) =
            map (\<lambda>l. \<lparr>e_from = n_id l, e_to = n_id (lw_compute (lws ! k)), e_kind = ''data''\<rparr>)
              (concat (lw_loads (lws ! k))) @
            map (\<lambda>s. \<lparr>e_from = n_id (lw_compute (lws ! k)), e_to = n_id s, e_kind = ''data''\<rparr>)
              (concat (lw_stores (lws ! k)))
          \<and> (\<forall>e \<in> set (lw_edges (lws ! k)).
                e_kind e = ''data''
                \<and> (e_from e \<in> n_id ` set (concat (lw_loads (lws ! k)))
                     \<and> e_to e = n_id (lw_compute (lws ! k))
                   \<or> e_from e = n_id (lw_compute (lws ! k))
                     \<and> e_to e \<in> n_id ` set (concat (lw_stores (lws ! k))))))
    \<and> (distinct (map node_name (g_node g)) \<longrightarrow>
         (\<forall>e \<in> set (tt_edges tt). \<forall>k < length lws. \<forall>k' < length lws.
            e_from e \<in> node_ids (lws ! k) \<and> e_to e \<in> node_ids (lws ! k') \<longrightarrow> k = k'))"
proof -
  from assms obtain lws where lg: "lower_graph py g pc = Inr lws" and tt: "tt = flatten_timetable lws"
    by (auto simp: onnx_to_gwr_timetable_def split: sum.splits)
  from lower_graph_InrD[OF lg] obtain addrs pes where
    len: "length lws = length (g_node g)"
    and lw: "\<And>k. k < length (g_node g) \<Longrightarrow>
               lower_node py (collect_tensors g) addrs pes (pe_name (pes ! (k mod length pes)))
                 (g_node g ! k) = Inr (lws ! k)"
    by blast
  have e: "lw_edges (lws ! k) =
            map (\<lambda>l. \<lparr>e_from = n_id l, e_to = n_id (lw_compute (lws ! k)), e_kind = ''data''\<rparr>)
              (concat (lw_loads (lws ! k))) @
            map (\<lambda>s. \<lparr>e_from = n_id (lw_compute (lws ! k)), e_to = n_id s, e_kind = ''data''\<rparr>)
              (concat (lw_stores (lws ! k)))" if "k < length lws" for k
    using lower_node_InrD(4)[OF lw[of k]] that len by (simp add: data_edge_def)
  have m: "e_kind e = ''data''
                \<and> (e_from e \<in> n_id ` set (concat (lw_loads (lws ! k)))
                     \<and> e_to e = n_id (lw_compute (lws ! k))
                   \<or> e_from e = n_id (lw_compute (lws ! k))
                     \<and> e_to e \<in> n_id ` set (concat (lw_stores (lws ! k))))"
    if "k < length lws" and "e \<in> set (lw_edges (lws ! k))" for k e
    using that(2) unfolding e[OF that(1)] by auto
  have d: "\<exists>addrs pes p.
             lower_node py (collect_tensors g) addrs pes p (g_node g ! k) = Inr (lws ! k)"
    if "k < length lws" for k
    using lw[of k] that len by auto
  have per: "\<forall>k < length lws.
          (\<exists>addrs pes p.
             lower_node py (collect_tensors g) addrs pes p (g_node g ! k) = Inr (lws ! k))
          \<and> lw_edges (lws ! k) =
            map (\<lambda>l. \<lparr>e_from = n_id l, e_to = n_id (lw_compute (lws ! k)), e_kind = ''data''\<rparr>)
              (concat (lw_loads (lws ! k))) @
            map (\<lambda>s. \<lparr>e_from = n_id (lw_compute (lws ! k)), e_to = n_id s, e_kind = ''data''\<rparr>)
              (concat (lw_stores (lws ! k)))
          \<and> (\<forall>e \<in> set (lw_edges (lws ! k)).
                e_kind e = ''data''
                \<and> (e_from e \<in> n_id ` set (concat (lw_loads (lws ! k)))
                     \<and> e_to e = n_id (lw_compute (lws ! k))
                   \<or> e_from e = n_id (lw_compute (lws ! k))
                     \<and> e_to e \<in> n_id ` set (concat (lw_stores (lws ! k)))))"
    using d e m by blast
  have own: "id_owner y = node_name (g_node g ! k)" if "k < length lws" and "y \<in> node_ids (lws ! k)" for k y
    using lowered_ids[OF lw[of k]] that len by (auto simp: node_ids_def)
  have ends: "e_from x \<in> node_ids (lws ! j) \<and> e_to x \<in> node_ids (lws ! j)"
    if "j < length lws" and "x \<in> set (lw_edges (lws ! j))" for j x
    using m[OF that] by (auto simp: node_ids_def lowered_nodes_def)
  have two: "k = k'"
    if dn: "distinct (map node_name (g_node g))" and x: "x \<in> set (tt_edges tt)"
      and k: "k < length lws" and k': "k' < length lws"
      and f: "e_from x \<in> node_ids (lws ! k)" and t: "e_to x \<in> node_ids (lws ! k')" for x k k'
  proof -
    from x obtain lwj where "lwj \<in> set lws" and "x \<in> set (lw_edges lwj)"
      by (auto simp: tt flatten_timetable_def)
    then obtain j where j: "j < length lws" and xj: "x \<in> set (lw_edges (lws ! j))"
      by (auto simp: in_set_conv_nth)
    from ends[OF j xj] own[OF j] have
      "id_owner (e_from x) = node_name (g_node g ! j)"
      "id_owner (e_to x) = node_name (g_node g ! j)" by simp_all
    with own[OF k f] own[OF k' t] have
      "node_name (g_node g ! k) = node_name (g_node g ! j)"
      "node_name (g_node g ! k') = node_name (g_node g ! j)" by simp_all
    hence q: "map node_name (g_node g) ! k = map node_name (g_node g) ! j"
      "map node_name (g_node g) ! k' = map node_name (g_node g) ! j"
      using j k k' len by simp_all
    have b: "k < length (map node_name (g_node g))" "k' < length (map node_name (g_node g))"
      "j < length (map node_name (g_node g))"
      using j k k' len by simp_all
    from q(1) have "k = j" by (simp only: nth_eq_iff_index_eq[OF dn b(1) b(3)])
    moreover from q(2) have "k' = j" by (simp only: nth_eq_iff_index_eq[OF dn b(2) b(3)])
    ultimately show ?thesis by simp
  qed
  have "distinct (map node_name (g_node g)) \<longrightarrow>
         (\<forall>e \<in> set (tt_edges tt). \<forall>k < length lws. \<forall>k' < length lws.
            e_from e \<in> node_ids (lws ! k) \<and> e_to e \<in> node_ids (lws ! k') \<longrightarrow> k = k')"
    using two by blast
  with lg len per show ?thesis
    by (simp add: tt flatten_timetable_def)
qed

theorem edges_within_operation_witness:
  "onnx_to_gwr_timetable decimal_int pair_graph ex_platform = Inr (flatten_timetable pair_lowered)
   \<and> distinct (map node_name (g_node pair_graph))
   \<and> tt_edges (flatten_timetable pair_lowered) =
       [\<lparr>e_from = ''a_load_0_chunk_0'', e_to = ''a_compute'', e_kind = ''data''\<rparr>,
        \<lparr>e_from = ''a_load_0_chunk_1'', e_to = ''a_compute'', e_kind = ''data''\<rparr>,
        \<lparr>e_from = ''b_compute'', e_to = ''b_store_0_chunk_0'', e_kind = ''data''\<rparr>,
        \<lparr>e_from = ''b_compute'', e_to = ''b_store_0_chunk_1'', e_kind = ''data''\<rparr>]
   \<and> ''a_load_0_chunk_0'' \<in> node_ids (pair_lowered ! 0)
   \<and> ''a_compute'' \<notin> node_ids (pair_lowered ! 1)"
proof -
  let ?e = "\<lparr>e_from = ''a_load_0_chunk_0'', e_to = ''a_compute'', e_kind = ''data''\<rparr>"
  have l: "lower_graph decimal_int pair_graph ex_platform = Inr pair_lowered"
    by code_simp
  hence c: "onnx_to_gwr_timetable decimal_int pair_graph ex_platform
             = Inr (flatten_timetable pair_lowered)"
    by (simp add: onnx_to_gwr_timetable_def)
  have dn: "distinct (map node_name (g_node pair_graph))" by (simp add: pair_graph_def)
  have es: "tt_edges (flatten_timetable pair_lowered) =
       [?e,
        \<lparr>e_from = ''a_load_0_chunk_1'', e_to = ''a_compute'', e_kind = ''data''\<rparr>,
        \<lparr>e_from = ''b_compute'', e_to = ''b_store_0_chunk_0'', e_kind = ''data''\<rparr>,
        \<lparr>e_from = ''b_compute'', e_to = ''b_store_0_chunk_1'', e_kind = ''data''\<rparr>]"
    by (simp add: flatten_timetable_def pair_lowered_def data_edge_def)
  have f: "''a_load_0_chunk_0'' \<in> node_ids (pair_lowered ! 0)"
    by (simp add: node_ids_def lowered_nodes_def pair_lowered_def)
  have len: "0 < length pair_lowered" "1 < length pair_lowered"
    by (simp_all add: pair_lowered_def)
  have m: "?e \<in> set (tt_edges (flatten_timetable pair_lowered))"
    unfolding es by simp
  from edges_within_operation[OF c] l dn
  have "\<forall>e \<in> set (tt_edges (flatten_timetable pair_lowered)).
          \<forall>k < length pair_lowered. \<forall>k' < length pair_lowered.
            e_from e \<in> node_ids (pair_lowered ! k) \<and> e_to e \<in> node_ids (pair_lowered ! k')
            \<longrightarrow> k = k'"
    by simp
  from this[rule_format, OF m len] f
  have "''a_compute'' \<notin> node_ids (pair_lowered ! 1)" by auto
  with c dn es f show ?thesis by blast
qed

text \<open>
  Claim C6 as stated fails for two operations of the same name. The first operation
  \<open>a\<close> has a load record and the second a store record; the edge from the load record of
  the first ends at \<open>a_compute\<close>, which is also the identifier of the compute record of
  the second.
\<close>

theorem shared_name_edge_counterexample:
  "onnx_to_gwr_timetable decimal_int dup_io_graph default_sram_platform
     = Inr (flatten_timetable dup_io_lowered)
   \<and> \<lparr>e_from = ''a_load_0'', e_to = ''a_compute'', e_kind = ''data''\<rparr>
       \<in> set (tt_edges (flatten_timetable dup_io_lowered))
   \<and> ''a_load_0'' \<in> node_ids (dup_io_lowered ! 0)
   \<and> ''a_compute'' \<in> node_ids (dup_io_lowered ! 1)
   \<and> ''a_load_0'' \<notin> node_ids (dup_io_lowered ! 1)"
  by code_simp

end
